theory Spec2Isabelle
  imports Main "HOL-Library.Sublist"
begin

section \<open>Data model of packages/imports/src/utils.ts\<close>

text \<open>
  JavaScript strings are modelled as \<^typ>\<open>string\<close>: one \<^typ>\<open>char\<close> per code unit, which
  covers every text whose code units are below 256. The resolver is the only external
  collaborator; its promises either fulfil with a value or reject with an \<open>error\<close>.
\<close>

datatype error = NotFound | FetchError

text \<open>\<^verbatim>\<open>ImportFile\<close> (parsers/importparser): \<^verbatim>\<open>{ url, source, provider }\<close>.\<close>

record ImportFile =
  url :: string
  source :: string
  provider :: string

text \<open>One element of \<^verbatim>\<open>imports: { uri: string; url: string }[]\<close>.\<close>

record import_edge =
  edge_uri :: string
  edge_url :: string

text \<open>
  \<^verbatim>\<open>interface ImportTreeNode extends ImportFile { uri; imports }\<close>. The field
  \<^verbatim>\<open>imports\<close> is called \<open>node_imports\<close> here, the source's name being reserved.
\<close>

record ImportTreeNode = ImportFile +
  uri :: string
  node_imports :: "import_edge list"

text \<open>
  \<^verbatim>\<open>ResolverEngine<ImportFile>\<close>: \<^verbatim>\<open>resolve(uri, cwd)\<close> gives the canonical url,
  \<^verbatim>\<open>require(uri, cwd)\<close> fetches the file. Both are asynchronous and may reject.
\<close>

record resolver =
  resolve :: "string \<Rightarrow> string \<Rightarrow> error + string"
  require :: "string \<Rightarrow> string \<Rightarrow> error + ImportFile"

section \<open>Import discovery: findImports\<close>

text \<open>
  \<^verbatim>\<open>findImports\<close> runs one regular expression over the text. The fragment of
  ECMAScript regular expressions it uses is modelled: literals, the character classes
  \<^verbatim>\<open>\s\<close>, \<^verbatim>\<open>[^;]\<close> and \<^verbatim>\<open>.\<close>, greedy \<^verbatim>\<open>*\<close> and \<^verbatim>\<open>+\<close> over a class,
  sequence, alternation and capture groups.
\<close>

datatype cclass = Space | NotSemi | AnyChar

fun in_class :: "cclass \<Rightarrow> char \<Rightarrow> bool" where
  "in_class Space c = (c \<in> {CHR 0x09, CHR 0x0A, CHR 0x0B, CHR 0x0C, CHR 0x0D, CHR 0x20, CHR 0xA0})"
| "in_class NotSemi c = (c \<noteq> CHR 0x3B)"
| "in_class AnyChar c = (c \<notin> {CHR 0x0A, CHR 0x0D})"

datatype rx = Lit string | Star cclass | Plus cclass | Seq rx rx | Alt rx rx | Grp nat rx

type_synonym captures = "nat \<Rightarrow> string option"

text \<open>
  The backtracking matcher as a list of successes: \<open>ms r (s, caps)\<close> lists, in the order
  in which backtracking tries them, the states (remaining input, captures) in which \<open>r\<close>
  can end when started on \<open>s\<close>. A greedy repetition first tries to take one more
  character and only then to stop, so its longest run comes first; an alternation tries
  its left branch first. The match of the whole expression is the head of the list.
\<close>

fun star_cands :: "cclass \<Rightarrow> string \<Rightarrow> string list" where
  "star_cands k [] = [[]]"
| "star_cands k (c # s) = (if in_class k c then star_cands k s @ [c # s] else [c # s])"

fun ms :: "rx \<Rightarrow> string \<times> captures \<Rightarrow> (string \<times> captures) list" where
  "ms (Lit l) (s, caps) = (if prefix l s then [(drop (length l) s, caps)] else [])"
| "ms (Star k) (s, caps) = map (\<lambda>r. (r, caps)) (star_cands k s)"
| "ms (Plus k) (s, caps) =
     (case s of [] \<Rightarrow> []
      | c # t \<Rightarrow> if in_class k c then map (\<lambda>r. (r, caps)) (star_cands k t) else [])"
| "ms (Seq a b) st = concat (map (ms b) (ms a st))"
| "ms (Alt a b) st = ms a st @ ms b st"
| "ms (Grp i r) (s, caps) =
     map (\<lambda>(s', caps'). (s', caps'(i \<mapsto> take (length s - length s') s))) (ms r (s, caps))"

text \<open>
  The expression of findImports, in named pieces:
  \<^verbatim>\<open>/import\s+(?:(?:"([^;]*)"|'([^;]*)')(?:;|\s+as\s+[^;]*;)|.+from\s+(?:"(.*)"|'(.*)');)/g\<close>
\<close>

definition quoted_path :: rx where
  \<open>quoted_path =
     Alt (Seq (Lit ''"'') (Seq (Grp 1 (Star NotSemi)) (Lit ''"'')))
         (Seq (Lit [CHR 0x27]) (Seq (Grp 2 (Star NotSemi)) (Lit [CHR 0x27])))\<close>

definition statement_end :: rx where
  \<open>statement_end =
     Alt (Lit '';'')
         (Seq (Plus Space) (Seq (Lit ''as'') (Seq (Plus Space) (Seq (Star NotSemi) (Lit '';'')))))\<close>

definition from_path :: rx where
  \<open>from_path =
     Alt (Seq (Lit ''"'') (Seq (Grp 3 (Star AnyChar)) (Lit ''"'')))
         (Seq (Lit [CHR 0x27]) (Seq (Grp 4 (Star AnyChar)) (Lit [CHR 0x27])))\<close>

definition from_clause :: rx where
  \<open>from_clause =
     Seq (Plus AnyChar) (Seq (Lit ''from'') (Seq (Plus Space) (Seq from_path (Lit '';''))))\<close>

definition import_regex :: rx where
  \<open>import_regex =
     Seq (Lit ''import'') (Seq (Plus Space) (Alt (Seq quoted_path statement_end) from_clause))\<close>

lemmas regex_defs = import_regex_def quoted_path_def statement_end_def from_path_def from_clause_def

text \<open>One attempt to match at the current position (no capture is set before it).\<close>

definition regex_exec_at :: "string \<Rightarrow> (string \<times> captures) option" where
  "regex_exec_at s = (case ms import_regex (s, Map.empty) of [] \<Rightarrow> None | m # _ \<Rightarrow> Some m)"

text \<open>
  \<^verbatim>\<open>for (let i = 1; i < match.length; i++) if (match[i] !== undefined) { push; break }\<close>
\<close>

definition first_capture :: "captures \<Rightarrow> string list" where
  "first_capture caps =
     (case caps 1 of Some x \<Rightarrow> [x] | None \<Rightarrow>
      (case caps 2 of Some x \<Rightarrow> [x] | None \<Rightarrow>
       (case caps 3 of Some x \<Rightarrow> [x] | None \<Rightarrow>
        (case caps 4 of Some x \<Rightarrow> [x] | None \<Rightarrow> []))))"

text \<open>A match never gives back input, and a match of the whole expression consumes some.\<close>

lemma star_cands_len: "r \<in> set (star_cands k s) \<Longrightarrow> length r \<le> length s"
  by (induction s) (auto split: if_splits)

lemma ms_len: "(r, c') \<in> set (ms rx (s, c)) \<Longrightarrow> length r \<le> length s"
proof (induction rx arbitrary: s c r c')
  case (Lit l) then show ?case by (auto split: if_splits)
next
  case (Star k) then show ?case by (auto dest: star_cands_len)
next
  case (Plus k) then show ?case by (auto split: list.splits if_splits dest!: star_cands_len)
next
  case (Seq a b)
  then obtain m c1 where "(m, c1) \<in> set (ms a (s, c))" "(r, c') \<in> set (ms b (m, c1))" by auto
  with Seq.IH show ?case by (meson le_trans)
next
  case (Alt a b) then show ?case by auto
next
  case (Grp i x) then show ?case by auto
qed

lemma ms_SeqD: "x \<in> set (ms (Seq a b) st) \<Longrightarrow> \<exists>m\<in>set (ms a st). x \<in> set (ms b m)"
  by auto

lemma regex_exec_at_shorter:
  assumes "regex_exec_at s = Some (r, c)" shows "length r < length s"
proof -
  from assms have "(r, c) \<in> set (ms import_regex (s, Map.empty))"
    by (auto simp: regex_exec_at_def split: list.splits)
  then obtain mr mc where 1: "(mr, mc) \<in> set (ms (Lit ''import'') (s, Map.empty))"
    and 2: "(r, c) \<in> set (ms (Seq (Plus Space) (Alt (Seq quoted_path statement_end) from_clause)) (mr, mc))"
    unfolding import_regex_def by (metis ms_SeqD surj_pair)
  from 1 have "length mr < length s" by (auto split: if_splits simp: prefix_def)
  moreover from 2 have "length r \<le> length mr" by (rule ms_len)
  ultimately show ?thesis by simp
qed

text \<open>
  The loop \<^verbatim>\<open>while ((match = regex.exec(data.source)))\<close> with the \<^verbatim>\<open>g\<close> flag: exec
  looks for the leftmost position from \<^verbatim>\<open>lastIndex\<close> on at which the expression matches,
  and the next search starts where that match ended; the loop ends when there is none.
\<close>

function find_from :: "string \<Rightarrow> string list" where
  "find_from s =
     (case regex_exec_at s of
        Some (rest, caps) \<Rightarrow> first_capture caps @ find_from rest
      | None \<Rightarrow> (case s of [] \<Rightarrow> [] | c # t \<Rightarrow> find_from t))"
  by pat_completeness auto
termination
  by (relation "measure length") (auto dest: regex_exec_at_shorter)

declare find_from.simps [simp del]

definition findImports :: "'a ImportFile_scheme \<Rightarrow> string list" where
  "findImports data = find_from (source data)"

section \<open>String.prototype.replace with a string pattern\<close>

text \<open>
  \<^verbatim>\<open>str.replace(searchString, replaceString)\<close> with a string pattern looks for the first
  position at which the pattern occurs (\<^verbatim>\<open>indexOf\<close>; the empty pattern occurs at 0),
  returns the string unchanged when there is none, and otherwise replaces that single
  occurrence by the expansion of the replacement template.
  \<open>find_first pat s\<close> splits \<open>s\<close> around the leftmost occurrence of \<open>pat\<close>.
\<close>

primrec find_first :: "string \<Rightarrow> string \<Rightarrow> (string \<times> string) option" where
  "find_first pat [] = (if pat = [] then Some ([], []) else None)"
| "find_first pat (c # cs) =
     (if prefix pat (c # cs) then Some ([], drop (length pat) (c # cs))
      else (case find_first pat cs of
              None \<Rightarrow> None
            | Some (preceding, following) \<Rightarrow> Some (c # preceding, following)))"

text \<open>
  The replacement template (ECMAScript GetSubstitution, no capture groups):
  \<^verbatim>\<open>$$\<close> is a dollar sign, \<^verbatim>\<open>$&\<close> the matched text, \<^verbatim>\<open>$`\<close> the text preceding the
  match, \<^verbatim>\<open>$'\<close> the text following it; any other character, a dollar sign followed by
  something else included, stands for itself.
\<close>

fun get_substitution :: "string \<Rightarrow> string \<Rightarrow> string \<Rightarrow> string \<Rightarrow> string" where
  "get_substitution matched preceding following [] = []"
| "get_substitution matched preceding following [c] = [c]"
| "get_substitution matched preceding following (c # d # r) =
     (if c = CHR 0x24 then
        (if d = CHR 0x24 then CHR 0x24 # get_substitution matched preceding following r
         else if d = CHR 0x26 then matched @ get_substitution matched preceding following r
         else if d = CHR 0x60 then preceding @ get_substitution matched preceding following r
         else if d = CHR 0x27 then following @ get_substitution matched preceding following r
         else c # get_substitution matched preceding following (d # r))
      else c # get_substitution matched preceding following (d # r))"

definition js_replace :: "string \<Rightarrow> string \<Rightarrow> string \<Rightarrow> string" where
  "js_replace str pat rep =
     (case find_first pat str of
        None \<Rightarrow> str
      | Some (preceding, following) \<Rightarrow> preceding @ get_substitution pat preceding following rep @ following)"

section \<open>Canonicalization: canonizeFile and stripNodes\<close>

text \<open>
  \<^verbatim>\<open>file.imports.forEach(i => (file.source = file.source.replace(i.uri, i.url)))\<close>:
  the edges are visited in list order, each assignment working on the text the previous
  one left.
\<close>

definition canonizeFile :: "ImportTreeNode \<Rightarrow> ImportTreeNode" where
  "canonizeFile file =
     file\<lparr>source := foldl (\<lambda>src i. js_replace src (edge_uri i) (edge_url i))
                        (source file) (node_imports file)\<rparr>"

text \<open>\<^verbatim>\<open>nodes.map(node => ({ url: node.url, source: node.source, provider: node.provider }))\<close>\<close>

definition stripNodes :: "ImportTreeNode list \<Rightarrow> ImportFile list" where
  "stripNodes nodes =
     map (\<lambda>node. \<lparr>url = url node, source = source node, provider = provider node\<rparr>) nodes"

text \<open>The pattern occurs somewhere in the text.\<close>

definition occurs_in :: "string \<Rightarrow> string \<Rightarrow> bool" where
  "occurs_in pat str = (find_first pat str \<noteq> None)"

subsection \<open>Facts about replace\<close>

lemma js_replace_absent: "\<not> occurs_in pat str \<Longrightarrow> js_replace str pat rep = str"
  by (auto simp: js_replace_def occurs_in_def split: option.splits)

lemma foldl_replace_absent:
  "(\<And>i. i \<in> set es \<Longrightarrow> \<not> occurs_in (edge_uri i) str) \<Longrightarrow>
   foldl (\<lambda>src i. js_replace src (edge_uri i) (edge_url i)) str es = str"
  by (induction es) (simp_all add: js_replace_absent)

section \<open>The path module of Node.js (POSIX flavour)\<close>

text \<open>
  utils.ts imports \<^verbatim>\<open>path\<close> from Node.js and calls \<^verbatim>\<open>path.resolve\<close>,
  \<^verbatim>\<open>path.join\<close> and \<^verbatim>\<open>path.dirname\<close>. The module is not part of the repository;
  it is modelled here after Node's \<^verbatim>\<open>path.posix\<close>: a path is cut at every slash, empty
  and \<^verbatim>\<open>.\<close> segments are dropped, \<^verbatim>\<open>..\<close> removes the segment before it (and is kept
  in front of a relative path, dropped at the root of an absolute one).
\<close>

fun split_on :: "char \<Rightarrow> string \<Rightarrow> string list" where
  "split_on d [] = [[]]"
| "split_on d (c # s) =
     (if c = d then [] # split_on d s
      else (case split_on d s of [] \<Rightarrow> [[c]] | x # xs \<Rightarrow> (c # x) # xs))"

fun join_slash :: "string list \<Rightarrow> string" where
  "join_slash [] = []"
| "join_slash [x] = x"
| "join_slash (x # y # ys) = x @ ''/'' @ join_slash (y # ys)"

fun normalizeSegments :: "bool \<Rightarrow> string list \<Rightarrow> string list \<Rightarrow> string list" where
  "normalizeSegments allowAboveRoot res [] = res"
| "normalizeSegments allowAboveRoot res (seg # segs) =
     (if seg = [] \<or> seg = ''.'' then normalizeSegments allowAboveRoot res segs
      else if seg = ''..'' then
        (if res \<noteq> [] \<and> last res \<noteq> ''..'' then normalizeSegments allowAboveRoot (butlast res) segs
         else if allowAboveRoot then normalizeSegments allowAboveRoot (res @ [''..'']) segs
         else normalizeSegments allowAboveRoot res segs)
      else normalizeSegments allowAboveRoot (res @ [seg]) segs)"

definition normalizeString :: "string \<Rightarrow> bool \<Rightarrow> string" where
  "normalizeString path allowAboveRoot =
     join_slash (normalizeSegments allowAboveRoot [] (split_on CHR ''/'' path))"

definition isAbsolute :: "string \<Rightarrow> bool" where
  "isAbsolute path = (case path of [] \<Rightarrow> False | c # _ \<Rightarrow> c = CHR ''/'')"

definition path_normalize :: "string \<Rightarrow> string" where
  "path_normalize path =
     (if path = [] then ''.''
      else
        let trailingSeparator = (last path = CHR ''/'');
            p = normalizeString path (\<not> isAbsolute path)
        in if p = [] then (if isAbsolute path then ''/'' else if trailingSeparator then ''./'' else ''.'')
           else (if isAbsolute path then ''/'' else []) @ p @ (if trailingSeparator then ''/'' else []))"

definition path_join :: "string \<Rightarrow> string \<Rightarrow> string" where
  "path_join a b =
     (case filter (\<lambda>arg. arg \<noteq> []) [a, b] of
        [] \<Rightarrow> ''.''
      | parts \<Rightarrow> path_normalize (join_slash parts))"

text \<open>
  \<^verbatim>\<open>path.dirname\<close> scans from the end: trailing slashes are skipped, then the last
  component, and the path up to the slash before it is returned; index 0 is never looked
  at, and \<^verbatim>\<open>//x\<close> keeps both slashes.
\<close>

definition path_dirname :: "string \<Rightarrow> string" where
  "path_dirname path =
     (if path = [] then ''.''
      else
        let r = dropWhile (\<lambda>c. c \<noteq> CHR ''/'') (dropWhile (\<lambda>c. c = CHR ''/'') (rev path))
        in if length r \<le> 1 then (if isAbsolute path then ''/'' else ''.'')
           else if isAbsolute path \<and> length r = 2 then ''//''
           else rev (tl r))"

text \<open>
  \<^verbatim>\<open>path.resolve(a, b)\<close> prepends its arguments from right to left, then the process's
  working directory, until the path is absolute.
\<close>

fun resolve_loop :: "string list \<Rightarrow> string \<Rightarrow> string \<times> bool" where
  "resolve_loop [] resolvedPath = (resolvedPath, False)"
| "resolve_loop (path # paths) resolvedPath =
     (if path = [] then resolve_loop paths resolvedPath
      else if isAbsolute path then (path @ ''/'' @ resolvedPath, True)
      else resolve_loop paths (path @ ''/'' @ resolvedPath))"

definition path_resolve :: "string \<Rightarrow> string \<Rightarrow> string \<Rightarrow> string" where
  "path_resolve processCwd a b =
     (case resolve_loop [b, a, processCwd] [] of
        (resolvedPath, resolvedAbsolute) \<Rightarrow>
          let n = normalizeString resolvedPath (\<not> resolvedAbsolute)
          in if resolvedAbsolute then ''/'' @ n else if n \<noteq> [] then n else ''.'')"

section \<open>The flattening traversal: gatherSources\<close>

text \<open>
  The elements of \<^verbatim>\<open>queue: { cwd, file, relativeTo }[]\<close> (the fields carry the prefix
  \<open>q_\<close>, \<^verbatim>\<open>file\<close> being reserved), and the local variables of gatherSources.
  \<open>fetched\<close> is not a variable of the source: it records, in call order, the arguments
  \<^verbatim>\<open>(file, cwd)\<close> of every call of \<^verbatim>\<open>resolver.require\<close>, so that theorems can speak
  about the requests made.
\<close>

record queue_entry =
  q_cwd :: string
  q_file :: string
  q_relativeTo :: string

record gather_state =
  queue :: "queue_entry list"
  alreadyImported :: "string set"
  result :: "ImportFile list"
  fetched :: "(string \<times> string) list"

text \<open>\<^verbatim>\<open>s[0] === "."\<close>; indexing the empty string gives \<^verbatim>\<open>undefined\<close>.\<close>

definition starts_with_dot :: "string \<Rightarrow> bool" where
  "starts_with_dot s = (case s of [] \<Rightarrow> False | c # _ \<Rightarrow> c = CHR ''.'')"

text \<open>
  \<^verbatim>\<open>for (const i in foundImports)\<close> enumerates the property keys of the array, that is
  its indices as decimal strings \<^verbatim>\<open>"0"\<close>, \<^verbatim>\<open>"1"\<close>, ...; \<^verbatim>\<open>foundImports[i]\<close> is the
  element at that index.
\<close>

fun string_of_index :: "nat \<Rightarrow> string" where
  "string_of_index n =
     (if n < 10 then [char_of (48 + n)]
      else string_of_index (n div 10) @ [char_of (48 + n mod 10)])"

declare string_of_index.simps [simp del]

text \<open>
  Lines 130 to 135: \<^verbatim>\<open>if (i[0] === ".") importName = path.join(relativePath, i);
  else importName = foundImports[i];\<close>
\<close>

definition importName_of :: "string \<Rightarrow> string list \<Rightarrow> nat \<Rightarrow> string" where
  "importName_of relativePath foundImports idx =
     (let i = string_of_index idx
      in if starts_with_dot i then path_join relativePath i else foundImports ! idx)"

text \<open>Lines 136 to 139: the visited check and the push on the queue.\<close>

definition enqueue_import ::
  "string \<Rightarrow> string \<Rightarrow> string list \<Rightarrow> gather_state \<Rightarrow> nat \<Rightarrow> gather_state" where
  "enqueue_import relativePath fileParentDir foundImports st idx =
     (let importName = importName_of relativePath foundImports idx
      in if importName \<in> alreadyImported st then st
         else st\<lparr>alreadyImported := insert importName (alreadyImported st),
                 queue := queue st @
                   [\<lparr>q_cwd = fileParentDir, q_file = foundImports ! idx,
                     q_relativeTo = path_dirname relativePath\<rparr>]\<rparr>)"

text \<open>Lines 114 to 140: what one turn of the while loop does once the file is fetched.\<close>

definition gather_body :: "queue_entry \<Rightarrow> ImportFile \<Rightarrow> gather_state \<Rightarrow> gather_state" where
  "gather_body fileData resolvedFile st =
     (let foundImports = findImports resolvedFile;
          relativePath = (if starts_with_dot (q_file fileData)
                          then path_join (q_relativeTo fileData) (q_file fileData)
                          else q_file fileData);
          st1 = st\<lparr>result := result st @
                  [\<lparr>url = relativePath, source = source resolvedFile,
                    provider = provider resolvedFile\<rparr>]\<rparr>;
          fileParentDir = path_dirname (url resolvedFile)
      in foldl (enqueue_import relativePath fileParentDir foundImports) st1
           [0..<length foundImports])"

text \<open>
  The while loop. It need not end (a resolver can serve new import literals for ever), so
  the model counts the turns it may take: \<open>None\<close> says that \<open>n\<close> turns were not enough.
  A rejected \<^verbatim>\<open>resolver.require\<close> makes the awaiting function reject with the same
  error.
\<close>

fun gather_loop ::
  "resolver \<Rightarrow> nat \<Rightarrow> gather_state \<Rightarrow> (error + ImportFile list) option \<times> gather_state" where
  "gather_loop R n st =
     (case queue st of
        [] \<Rightarrow> (Some (Inr (result st)), st)
      | fileData # rest \<Rightarrow>
          (case n of
             0 \<Rightarrow> (None, st)
           | Suc m \<Rightarrow>
               let st1 = st\<lparr>queue := rest,
                             fetched := fetched st @ [(q_file fileData, q_cwd fileData)]\<rparr>
               in (case require R (q_file fileData) (q_cwd fileData) of
                     Inl e \<Rightarrow> (Some (Inl e), st1)
                   | Inr resolvedFile \<Rightarrow> gather_loop R m (gather_body fileData resolvedFile st1))))"

declare gather_loop.simps [simp del]

text \<open>
  Lines 99 to 110. \<^verbatim>\<open>path.resolve\<close> reads the working directory of the process, which
  is a parameter here.
\<close>

definition gather_init :: "string \<Rightarrow> string list \<Rightarrow> string \<Rightarrow> gather_state" where
  "gather_init processCwd roots workingDir =
     foldl (\<lambda>st absWhat.
              st\<lparr>queue := queue st @ [\<lparr>q_cwd = workingDir, q_file = absWhat, q_relativeTo = workingDir\<rparr>],
                 alreadyImported := insert absWhat (alreadyImported st)\<rparr>)
       \<lparr>queue = [], alreadyImported = {}, result = [], fetched = []\<rparr>
       (map (\<lambda>what. path_resolve processCwd workingDir what) roots)"

definition gatherSources ::
  "string \<Rightarrow> nat \<Rightarrow> string list \<Rightarrow> string \<Rightarrow> resolver \<Rightarrow> (error + ImportFile list) option" where
  "gatherSources processCwd fuel roots workingDir R =
     fst (gather_loop R fuel (gather_init processCwd roots workingDir))"

section \<open>Asynchronous functions\<close>

text \<open>
  gatherDepenencyTree starts one call of the asynchronous function \<^verbatim>\<open>dfs\<close> per root and
  awaits them together (\<^verbatim>\<open>Promise.all\<close>). JavaScript runs such calls on one thread: a
  call runs until its next \<^verbatim>\<open>await\<close>, and another call may run before it is resumed.
  The promise of an asynchronous call is modelled by a \<open>task\<close>: fulfilled with a value
  (\<open>Done\<close>), rejected (\<open>Fail\<close>), or suspended at an \<^verbatim>\<open>await\<close> (\<open>Await r\<close>), where \<open>r\<close>
  is the code that runs on resumption: given the shared variables as they are then, it
  yields the task's next state and the variables as it leaves them. \<open>Stuck\<close> is not a
  state of the program: it marks a model that ran out of its recursion budget.
\<close>

datatype ('s, 'a) task =
    Done 'a
  | Fail error
  | Stuck
  | Await "'s \<Rightarrow> ('s, 'a) task \<times> 's"

text \<open>
  \<^verbatim>\<open>const v = await t; k v\<close>: the awaiting function is resumed, in a later turn, with
  the value of \<open>t\<close>; when \<open>t\<close> rejects, the \<^verbatim>\<open>await\<close> throws and the function rejects.
\<close>

primrec await_task ::
  "('s, 'a) task \<Rightarrow> ('a \<Rightarrow> 's \<Rightarrow> ('s, 'b) task \<times> 's) \<Rightarrow> ('s, 'b) task" where
  "await_task (Done a) k = Await (k a)"
| "await_task (Fail e) k = Await (\<lambda>s. (Fail e, s))"
| "await_task Stuck k = Stuck"
| "await_task (Await r) k = Await (map_prod (\<lambda>t. await_task t k) id \<circ> r)"

text \<open>
  One task run alone: every \<^verbatim>\<open>await\<close> is resumed at once, nothing else runs in between.
  The result is \<open>None\<close> for a stuck model, \<open>Some (Inl e)\<close> for a rejection and
  \<open>Some (Inr v)\<close> for a value.
\<close>

primrec run :: "('s, 'a) task \<Rightarrow> 's \<Rightarrow> (error + 'a) option \<times> 's" where
  "run (Done a) = (\<lambda>s. (Some (Inr a), s))"
| "run (Fail e) = (\<lambda>s. (Some (Inl e), s))"
| "run Stuck = (\<lambda>s. (None, s))"
| "run (Await r) = (\<lambda>s. case_prod id ((map_prod run id \<circ> r) s))"

section \<open>The tree traversal: gatherDepenencyTree and dfs\<close>

text \<open>
  The variables of gatherDepenencyTree that every call of dfs shares (prefix \<open>dt_\<close>:
  gatherSources has variables of the same names). \<open>dt_fetched\<close> is not a variable of the
  source: it records the arguments \<^verbatim>\<open>(uri, searchCwd)\<close> of every call of
  \<^verbatim>\<open>resolver.require\<close>, in call order.
\<close>

record tree_state =
  dt_alreadyImported :: "string set"
  dt_result :: "ImportTreeNode list"
  dt_fetched :: "(string \<times> string) list"

text \<open>
  Lines 68 to 74 of dfs: the loop over \<^verbatim>\<open>foundImportURIs\<close>, each \<^verbatim>\<open>await dfs(...)\<close>
  followed by the push of the edge, then \<^verbatim>\<open>result.push(fileNode)\<close> and
  \<^verbatim>\<open>return resolvedFile.url\<close> (the node's own \<open>url\<close> field). \<open>d\<close> is the recursive
  call.
\<close>

primrec for_imports ::
  "(string \<Rightarrow> string \<Rightarrow> (tree_state, string) task) \<Rightarrow> string \<Rightarrow> string list \<Rightarrow>
   ImportTreeNode \<Rightarrow> tree_state \<Rightarrow> (tree_state, string) task \<times> tree_state" where
  "for_imports d resolvedCwd [] =
     (\<lambda>fileNode st. (Done (url fileNode), st\<lparr>dt_result := dt_result st @ [fileNode]\<rparr>))"
| "for_imports d resolvedCwd (importUri # rest) =
     (\<lambda>fileNode st.
        (await_task (d resolvedCwd importUri)
           (\<lambda>importUrl.
              for_imports d resolvedCwd rest
                (fileNode\<lparr>node_imports := node_imports fileNode @
                   [\<lparr>edge_uri = importUri, edge_url = importUrl\<rparr>]\<rparr>)),
         st))"

text \<open>
  dfs, lines 53 to 75; its argument \<^verbatim>\<open>file: { searchCwd, uri }\<close> is passed as two
  strings, and the local \<^verbatim>\<open>url\<close> is \<open>url'\<close>. The first argument \<open>n\<close> bounds the depth
  of nested calls: the source recurses without bound, and a resolver that serves ever
  new files makes it recurse for ever. Each \<^verbatim>\<open>await\<close> of the source is an \<open>Await\<close>;
  \<^verbatim>\<open>resolver.require\<close> is called (and recorded) in the turn that found the url unvisited,
  and \<^verbatim>\<open>alreadyImported.add(url)\<close> runs in the turn after its promise fulfilled.
\<close>

primrec dfs :: "resolver \<Rightarrow> nat \<Rightarrow> string \<Rightarrow> string \<Rightarrow> (tree_state, string) task" where
  "dfs R 0 = (\<lambda>searchCwd uri'. Stuck)"
| "dfs R (Suc n) = (\<lambda>searchCwd uri'.
     (case resolve R uri' searchCwd of
        Inl e \<Rightarrow> Await (\<lambda>st. (Fail e, st))
      | Inr url' \<Rightarrow> Await (\<lambda>st.
          if url' \<in> dt_alreadyImported st then (Done url', st)
          else
            (case require R uri' searchCwd of
               Inl e \<Rightarrow> Await (\<lambda>st. (Fail e, st))
             | Inr resolvedFile \<Rightarrow> Await (\<lambda>st.
                 let st1 = st\<lparr>dt_alreadyImported := insert url' (dt_alreadyImported st)\<rparr>;
                     foundImportURIs = findImports resolvedFile;
                     fileNode = \<lparr>url = url resolvedFile, source = source resolvedFile,
                                 provider = provider resolvedFile, uri = uri', node_imports = []\<rparr>;
                     resolvedCwd = path_dirname url'
                 in for_imports (dfs R n) resolvedCwd foundImportURIs fileNode st1),
             st\<lparr>dt_fetched := dt_fetched st @ [(uri', searchCwd)]\<rparr>))))"

text \<open>
  \<^verbatim>\<open>await Promise.all(roots.map(what => dfs({ searchCwd: workingDir, uri: what })))\<close>.
  Which suspended call is resumed next depends on when the resolver's promises settle,
  which the program does not control; a schedule lists the indices of the tasks in the
  order of their turns. \<^verbatim>\<open>Promise.all\<close> rejects with the error of the first task that
  rejects and fulfils once all tasks are fulfilled; \<open>None\<close> says that the schedule ended
  before that.
\<close>

definition step_task :: "('s, 'a) task \<Rightarrow> 's \<Rightarrow> ('s, 'a) task \<times> 's" where
  "step_task t s = (case t of Await r \<Rightarrow> r s | _ \<Rightarrow> (t, s))"

fun results_of :: "('s, 'a) task list \<Rightarrow> 'a list option" where
  "results_of [] = Some []"
| "results_of (Done a # ts) = map_option (Cons a) (results_of ts)"
| "results_of (_ # ts) = None"

fun promise_all ::
  "nat list \<Rightarrow> ('s, 'a) task list \<Rightarrow> 's \<Rightarrow> (error + 'a list) option \<times> 's" where
  "promise_all sched ts s =
     (case results_of ts of
        Some vs \<Rightarrow> (Some (Inr vs), s)
      | None \<Rightarrow>
          (case sched of
             [] \<Rightarrow> (None, s)
           | i # rest \<Rightarrow>
               if i < length ts then
                 (case step_task (ts ! i) s of
                    (Fail e, s') \<Rightarrow> (Some (Inl e), s')
                  | (t', s') \<Rightarrow> promise_all rest (ts[i := t']) s')
               else promise_all rest ts s))"

text \<open>Lines 45 and 46, and the whole of gatherDepenencyTree.\<close>

definition tree_init :: tree_state where
  "tree_init = \<lparr>dt_alreadyImported = {}, dt_result = [], dt_fetched = []\<rparr>"

definition gatherDepenencyTree ::
  "nat list \<Rightarrow> nat \<Rightarrow> string list \<Rightarrow> string \<Rightarrow> resolver \<Rightarrow>
   (error + ImportTreeNode list) option \<times> tree_state" where
  "gatherDepenencyTree sched fuel roots workingDir R =
     (case promise_all sched (map (\<lambda>what. dfs R fuel workingDir what) roots) tree_init of
        (Some (Inr _), st) \<Rightarrow> (Some (Inr (dt_result st)), st)
      | (Some (Inl e), st) \<Rightarrow> (Some (Inl e), st)
      | (None, st) \<Rightarrow> (None, st))"

text \<open>gatherSourcesAndCanonizeImports, lines 163 to 165.\<close>

definition gatherSourcesAndCanonizeImports ::
  "nat list \<Rightarrow> nat \<Rightarrow> string list \<Rightarrow> string \<Rightarrow> resolver \<Rightarrow> (error + ImportFile list) option" where
  "gatherSourcesAndCanonizeImports sched fuel roots workingDir R =
     (case fst (gatherDepenencyTree sched fuel roots workingDir R) of
        None \<Rightarrow> None
      | Some (Inl e) \<Rightarrow> Some (Inl e)
      | Some (Inr sources) \<Rightarrow> Some (Inr (stripNodes (map canonizeFile sources))))"

section \<open>Concrete inputs\<close>

definition file_of :: "string \<Rightarrow> string \<Rightarrow> ImportFile" where
  "file_of u src = \<lparr>url = u, source = src, provider = ''fs''\<rparr>"

text \<open>
  \<^verbatim>\<open>/w/main.sol\<close> mentions \<^verbatim>\<open>a.sol\<close> in a comment and then imports it; \<^verbatim>\<open>/w/a.sol\<close>
  imports nothing.
\<close>

definition resolver_comment :: resolver where
  \<open>resolver_comment =
     \<lparr>resolve = (\<lambda>u c. if u = ''main.sol'' \<or> u = ''a.sol'' then Inr (''/w/'' @ u) else Inl NotFound),
      require = (\<lambda>u c.
        if u = ''main.sol'' then Inr (file_of ''/w/main.sol'' ''// uses a.sol\<newline>import "a.sol";'')
        else if u = ''a.sol'' then Inr (file_of ''/w/a.sol'' ''contract A {}'')
        else Inl NotFound)\<rparr>\<close>

text \<open>A node whose single import \<^verbatim>\<open>a.sol\<close> resolved to \<^verbatim>\<open>/w/a.sol\<close>.\<close>

definition node_once :: ImportTreeNode where
  \<open>node_once = \<lparr>url = ''/w/main.sol'', source = ''import "a.sol";'', provider = ''fs'',
                 uri = ''main.sol'', node_imports = [\<lparr>edge_uri = ''a.sol'', edge_url = ''/w/a.sol''\<rparr>]\<rparr>\<close>

text \<open>A node whose single import resolved to a locator that does not contain the literal.\<close>

definition node_pkg :: ImportTreeNode where
  \<open>node_pkg = \<lparr>url = ''/w/main.sol'', source = ''import "@pkg/a.sol";'', provider = ''fs'',
                uri = ''main.sol'',
                node_imports = [\<lparr>edge_uri = ''@pkg/a.sol'', edge_url = ''/w/node_modules/pkg/a.sol''\<rparr>]\<rparr>\<close>

text \<open>
  \<^verbatim>\<open>/w/a/b.sol\<close> imports \<^verbatim>\<open>./c.sol\<close> and \<^verbatim>\<open>pkg/d.sol\<close>, which import nothing.
\<close>

definition resolver_flat :: resolver where
  \<open>resolver_flat =
     \<lparr>resolve = (\<lambda>u c. Inl NotFound),
      require = (\<lambda>u c.
        if u = ''/w/a/b.sol'' then
          Inr (file_of ''/w/a/b.sol'' ''import "./c.sol";\<newline>import "pkg/d.sol";'')
        else if u = ''./c.sol'' \<and> c = ''/w/a'' then Inr (file_of ''/w/a/c.sol'' ''contract C {}'')
        else if u = ''pkg/d.sol'' then Inr (file_of ''/w/node_modules/pkg/d.sol'' ''contract D {}'')
        else Inl NotFound)\<rparr>\<close>

text \<open>
  \<^verbatim>\<open>/w/a/b.sol\<close> imports \<^verbatim>\<open>./c.sol\<close> and \<^verbatim>\<open>./lib/d.sol\<close>; the latter imports its own
  neighbour \<^verbatim>\<open>./c.sol\<close>, which is the file \<^verbatim>\<open>/w/a/lib/c.sol\<close>.
\<close>

definition resolver_sibling :: resolver where
  \<open>resolver_sibling =
     \<lparr>resolve = (\<lambda>u c. Inl NotFound),
      require = (\<lambda>u c.
        if u = ''/w/a/b.sol'' then
          Inr (file_of ''/w/a/b.sol'' ''import "./c.sol";\<newline>import "./lib/d.sol";'')
        else if u = ''./c.sol'' \<and> c = ''/w/a'' then Inr (file_of ''/w/a/c.sol'' ''contract C {}'')
        else if u = ''./lib/d.sol'' \<and> c = ''/w/a'' then
          Inr (file_of ''/w/a/lib/d.sol'' ''import "./c.sol";'')
        else if u = ''./c.sol'' \<and> c = ''/w/a/lib'' then
          Inr (file_of ''/w/a/lib/c.sol'' ''contract LibC {}'')
        else Inl NotFound)\<rparr>\<close>

text \<open>
  \<^verbatim>\<open>/w/a/b.sol\<close> imports \<^verbatim>\<open>./lib/x.sol\<close> and \<^verbatim>\<open>./y.sol\<close>; \<^verbatim>\<open>/w/a/lib/x.sol\<close> imports
  \<^verbatim>\<open>../y.sol\<close>, the same file \<^verbatim>\<open>/w/a/y.sol\<close>.
\<close>

definition resolver_diamond :: resolver where
  \<open>resolver_diamond =
     \<lparr>resolve = (\<lambda>u c. Inl NotFound),
      require = (\<lambda>u c.
        if u = ''/w/a/b.sol'' then
          Inr (file_of ''/w/a/b.sol'' ''import "./lib/x.sol";\<newline>import "./y.sol";'')
        else if u = ''./lib/x.sol'' \<and> c = ''/w/a'' then
          Inr (file_of ''/w/a/lib/x.sol'' ''import "../y.sol";'')
        else if u = ''./y.sol'' \<and> c = ''/w/a'' then Inr (file_of ''/w/a/y.sol'' ''contract Y {}'')
        else if u = ''../y.sol'' \<and> c = ''/w/a/lib'' then Inr (file_of ''/w/a/y.sol'' ''contract Y {}'')
        else Inl NotFound)\<rparr>\<close>

text \<open>The roots \<^verbatim>\<open>A.sol\<close> and \<^verbatim>\<open>B.sol\<close> both import \<^verbatim>\<open>F.sol\<close>.\<close>

definition resolver_shared :: resolver where
  \<open>resolver_shared =
     \<lparr>resolve = (\<lambda>u c. if u \<in> {''A.sol'', ''B.sol'', ''F.sol''} then Inr (''/w/'' @ u) else Inl NotFound),
      require = (\<lambda>u c.
        if u = ''A.sol'' then Inr (file_of ''/w/A.sol'' ''import "F.sol";'')
        else if u = ''B.sol'' then Inr (file_of ''/w/B.sol'' ''import "F.sol";'')
        else if u = ''F.sol'' then Inr (file_of ''/w/F.sol'' ''contract F {}'')
        else Inl NotFound)\<rparr>\<close>

text \<open>\<^verbatim>\<open>A.sol\<close> imports \<^verbatim>\<open>B.sol\<close> and \<^verbatim>\<open>B.sol\<close> imports \<^verbatim>\<open>A.sol\<close>.\<close>

definition resolver_cycle :: resolver where
  \<open>resolver_cycle =
     \<lparr>resolve = (\<lambda>u c. if u = ''A.sol'' \<or> u = ''B.sol'' then Inr (''/w/'' @ u) else Inl NotFound),
      require = (\<lambda>u c.
        if u = ''A.sol'' then Inr (file_of ''/w/A.sol'' ''import "B.sol";'')
        else if u = ''B.sol'' then Inr (file_of ''/w/B.sol'' ''import "A.sol";'')
        else Inl NotFound)\<rparr>\<close>





section \<open>Properties of findImports\<close>

text \<open>
  Claim C9 says that findImports returns the quoted path of every import statement of the
  supported shapes, in source order. For two \<^verbatim>\<open>from\<close> imports on one line it returns only
  the path of the second: \<^verbatim>\<open>.+\<close> is greedy and runs over the first statement up to the
  last \<^verbatim>\<open>from\<close> of the line (first equation). With each statement on a line of its own
  both paths are returned (second equation). The other equations: the three shapes of the
  comment on lines 7 to 10 with double and with single quotes give their paths unchanged
  and in order, a text without import statements gives nothing, and a statement that occurs
  twice gives its path twice.
\<close>

theorem findImports_misses_import_on_shared_line:
  \<open>findImports (file_of ''/w/m.sol'' ''import a from "x.sol"; import b from "y.sol";'') = [''y.sol''] \<and>
   findImports (file_of ''/w/m.sol'' ''import a from "x.sol";\<newline>import b from "y.sol";'') =
     [''x.sol'', ''y.sol''] \<and>
   findImports (file_of ''/w/m.sol''
     ''import "./a.sol";\<newline>import "b.sol" as B;\<newline>import {C} from "../c.sol";'') =
     [''./a.sol'', ''b.sol'', ''../c.sol''] \<and>
   findImports (file_of ''/w/m.sol''
     ''import './a.sol';\<newline>import 'b.sol' as B;\<newline>import {C} from '../c.sol';'') =
     [''./a.sol'', ''b.sol'', ''../c.sol''] \<and>
   findImports (file_of ''/w/m.sol'' ''pragma solidity ^0.5.0;\<newline>contract C {}'') = [] \<and>
   findImports (file_of ''/w/m.sol'' ''import "x.sol";\<newline>import "x.sol";'') = [''x.sol'', ''x.sol'']\<close>
  by code_simp

section \<open>Properties of canonicalization\<close>

text \<open>
  Claim C2 says that canonicalization replaces every occurrence of each edge's literal.
  \<^verbatim>\<open>String.prototype.replace\<close> with a string pattern replaces the leftmost occurrence
  only. On \<open>resolver_comment\<close> the root's text holds the literal \<^verbatim>\<open>a.sol\<close> twice, first
  in a comment and then in the import statement: gatherSourcesAndCanonizeImports rewrites
  the comment and returns the import statement as it was written.
\<close>

theorem canonize_leaves_import_unrewritten:
  \<open>gatherSourcesAndCanonizeImports [0,0,0,0,0,0] 3 [''main.sol''] ''/w'' resolver_comment =
     Some (Inr [file_of ''/w/a.sol'' ''contract A {}'',
                file_of ''/w/main.sol'' ''// uses /w/a.sol\<newline>import "a.sol";''])\<close>
  by code_simp

text \<open>
  Claim C3 says that a second canonicalization pass with the same edges changes nothing.
  It fails whenever a locator contains its own literal, as an absolute path contains the
  relative one: the second pass rewrites the literal inside the locator the first pass
  wrote.
\<close>

theorem canonizeFile_twice_differs:
  \<open>source (canonizeFile node_once) = ''import "/w/a.sol";'' \<and>
   source (canonizeFile (canonizeFile node_once)) = ''import "/w//w/a.sol";''\<close>
  by code_simp

text \<open>
  Claim C3, amended: a second pass changes nothing when none of the node's import literals
  occurs in the text the first pass produced.
\<close>

theorem canonizeFile_idempotent_if_absent:
  assumes "\<forall>i \<in> set (node_imports file). \<not> occurs_in (edge_uri i) (source (canonizeFile file))"
  shows "canonizeFile (canonizeFile file) = canonizeFile file"
proof -
  have "foldl (\<lambda>src i. js_replace src (edge_uri i) (edge_url i)) (source (canonizeFile file))
          (node_imports file) = source (canonizeFile file)"
    using assms by (intro foldl_replace_absent) simp
  then show ?thesis by (simp add: canonizeFile_def)
qed

theorem canonizeFile_idempotent_if_absent_witness:
  \<open>\<not> occurs_in ''@pkg/a.sol'' (source (canonizeFile node_pkg)) \<and>
   source (canonizeFile node_pkg) = ''import "/w/node_modules/pkg/a.sol";'' \<and>
   canonizeFile (canonizeFile node_pkg) = canonizeFile node_pkg\<close>
proof -
  have 1: \<open>source (canonizeFile node_pkg) = ''import "/w/node_modules/pkg/a.sol";''\<close>
    by code_simp
  have 2: "\<not> occurs_in ''@pkg/a.sol'' (source (canonizeFile node_pkg))"
    by code_simp
  have "\<forall>i \<in> set (node_imports node_pkg). \<not> occurs_in (edge_uri i) (source (canonizeFile node_pkg))"
    using 2 by (simp add: node_pkg_def)
  from canonizeFile_idempotent_if_absent [OF this] 1 2 show ?thesis by simp
qed

section \<open>Properties of gatherSources\<close>

subsection \<open>The loop and its visited check\<close>

lemma gather_loop_Nil: "queue st = [] \<Longrightarrow> gather_loop R n st = (Some (Inr (result st)), st)"
  by (simp add: gather_loop.simps)

lemma gather_loop_fetch:
  "queue st = fileData # rest \<Longrightarrow> require R (q_file fileData) (q_cwd fileData) = Inr resolvedFile \<Longrightarrow>
   gather_loop R (Suc m) st =
     gather_loop R m (gather_body fileData resolvedFile
       (st\<lparr>queue := rest, fetched := fetched st @ [(q_file fileData, q_cwd fileData)]\<rparr>))"
  by (subst gather_loop.simps) (simp add: Let_def)


lemma string_of_index_nonempty: "string_of_index n \<noteq> []"
  by (subst string_of_index.simps) simp

lemma char_of_digit_not_dot:
  assumes "(n::nat) < 10" shows "char_of (48 + n) \<noteq> CHR ''.''"
proof
  assume "char_of (48 + n) = CHR ''.''"
  then have "(of_char (char_of (48 + n) :: char) :: nat) = of_char (CHR ''.'')" by simp
  then have "(48 + n) mod 256 = (46::nat)" by simp
  with assms show False by simp
qed

lemma string_of_index_no_dot: "\<not> starts_with_dot (string_of_index n)"
proof (induction n rule: string_of_index.induct)
  case (1 n)
  show ?case
  proof (cases "n < 10")
    case True
    then show ?thesis
      by (subst string_of_index.simps) (simp add: starts_with_dot_def char_of_digit_not_dot)
  next
    case False
    with 1 have "\<not> starts_with_dot (string_of_index (n div 10))" by simp
    moreover have "string_of_index (n div 10) \<noteq> []" by (rule string_of_index_nonempty)
    ultimately show ?thesis using False
      by (subst string_of_index.simps) (auto simp: starts_with_dot_def split: list.splits)
  qed
qed

lemma importName_of_literal: "importName_of relativePath foundImports idx = foundImports ! idx"
  by (simp add: importName_of_def string_of_index_no_dot)

lemma enqueue_import_literal:
  "enqueue_import relativePath fileParentDir foundImports st idx =
     (if foundImports ! idx \<in> alreadyImported st then st
      else st\<lparr>alreadyImported := insert (foundImports ! idx) (alreadyImported st),
              queue := queue st @
                [\<lparr>q_cwd = fileParentDir, q_file = foundImports ! idx,
                  q_relativeTo = path_dirname relativePath\<rparr>]\<rparr>)"
  by (simp add: enqueue_import_def importName_of_literal Let_def)

lemma isAbsolute_path_resolve:
  assumes "isAbsolute processCwd" shows "isAbsolute (path_resolve processCwd workingDir what)"
proof -
  from assms have "processCwd \<noteq> []" by (auto simp: isAbsolute_def)
  with assms show ?thesis
    by (auto simp: path_resolve_def isAbsolute_def Let_def split: list.splits)
qed

lemma isAbsolute_no_dot: "isAbsolute p \<Longrightarrow> \<not> starts_with_dot p"
  by (auto simp: isAbsolute_def starts_with_dot_def split: list.splits)

text \<open>
  Claim C1 says that an import literal with a leading dot is looked up in the visited set
  under \<^verbatim>\<open>join(relativePath, literal)\<close>. The loop \<^verbatim>\<open>for (const i in foundImports)\<close>
  binds \<open>i\<close> to the index, a decimal string, so \<^verbatim>\<open>i[0] === "."\<close> never holds: the name
  checked and marked is always the literal itself (first conjunct). On \<open>resolver_sibling\<close>
  the literal \<^verbatim>\<open>./c.sol\<close> of \<^verbatim>\<open>/w/a/lib/d.sol\<close> is therefore taken for the
  \<^verbatim>\<open>./c.sol\<close> of the root, already visited, and \<^verbatim>\<open>/w/a/lib/c.sol\<close> is neither
  requested nor returned.
\<close>

theorem gatherSources_effective_name_is_literal:
  \<open>importName_of relativePath foundImports idx = foundImports ! idx \<and>
   importName_of ''/w/a/lib/d.sol'' [''./c.sol''] 0 = ''./c.sol'' \<and>
   path_join ''/w/a/lib/d.sol'' ''./c.sol'' = ''/w/a/lib/d.sol/c.sol'' \<and>
   map_option (map_sum id (map url)) (gatherSources ''/'' 4 [''a/b.sol''] ''/w'' resolver_sibling) =
     Some (Inr [''/w/a/b.sol'', ''/w/a/c.sol'', ''/w/a/lib/d.sol'']) \<and>
   fetched (snd (gather_loop resolver_sibling 4 (gather_init ''/'' [''a/b.sol''] ''/w''))) =
     [(''/w/a/b.sol'', ''/w''), (''./c.sol'', ''/w/a''), (''./lib/d.sol'', ''/w/a'')]\<close>
proof -
  have 1: "importName_of relativePath foundImports idx = foundImports ! idx"
    by (rule importName_of_literal)
  have 2: "importName_of ''/w/a/lib/d.sol'' [''./c.sol''] 0 = ''./c.sol''" by code_simp
  have 3: "path_join ''/w/a/lib/d.sol'' ''./c.sol'' = ''/w/a/lib/d.sol/c.sol''" by code_simp
  have 4: "map_option (map_sum id (map url)) (gatherSources ''/'' 4 [''a/b.sol''] ''/w'' resolver_sibling) =
     Some (Inr [''/w/a/b.sol'', ''/w/a/c.sol'', ''/w/a/lib/d.sol''])" by code_simp
  have 5: "fetched (snd (gather_loop resolver_sibling 4 (gather_init ''/'' [''a/b.sol''] ''/w''))) =
     [(''/w/a/b.sol'', ''/w''), (''./c.sol'', ''/w/a''), (''./lib/d.sol'', ''/w/a'')]" by code_simp
  from 1 2 3 4 5 show ?thesis by blast
qed

text \<open>
  Claim C6 says that for the root \<^verbatim>\<open>a/b.sol\<close> the import \<^verbatim>\<open>./c.sol\<close> is emitted under
  the locator \<^verbatim>\<open>a/c.sol\<close>. gatherSources first makes every root absolute with
  \<^verbatim>\<open>path.resolve(workingDir, what)\<close>, so with the working directory \<^verbatim>\<open>/w\<close> the locator
  is \<^verbatim>\<open>/w/a/c.sol\<close>, and \<^verbatim>\<open>a/c.sol\<close> is not emitted.
\<close>

theorem gatherSources_emits_absolute_locator:
  \<open>map_option (map_sum id (map url)) (gatherSources ''/'' 3 [''a/b.sol''] ''/w'' resolver_flat) =
     Some (Inr [''/w/a/b.sol'', ''/w/a/c.sol'', ''pkg/d.sol'']) \<and>
   ''a/c.sol'' \<notin> set [''/w/a/b.sol'', ''/w/a/c.sol'', ''pkg/d.sol'']\<close>
  by code_simp

text \<open>
  Claim C6, amended: for the root \<^verbatim>\<open>a/b.sol\<close>, any working directory (absolute or
  relative) and any resolver that serves the root with the imports \<^verbatim>\<open>./c.sol\<close> and
  \<^verbatim>\<open>pkg/d.sol\<close> (both without imports of their own), gatherSources emits the root
  under the absolute path \<^verbatim>\<open>resolve(workingDir, "a/b.sol")\<close>, the import \<^verbatim>\<open>./c.sol\<close>
  under the join of that path's directory with the literal, and \<^verbatim>\<open>pkg/d.sol\<close>
  unchanged. The only hypothesis about paths is on the environment, not on the input:
  the working directory of the process, which \<^verbatim>\<open>path.resolve\<close> falls back on, is an
  absolute path, as \<^verbatim>\<open>process.cwd()\<close> always is.
\<close>

theorem gatherSources_relative_import:
  assumes abs: "isAbsolute processCwd"
    and root: "require R (path_resolve processCwd workingDir ''a/b.sol'') workingDir = Inr f0"
    and imps: "findImports f0 = [''./c.sol'', ''pkg/d.sol'']"
    and c: "require R ''./c.sol'' (path_dirname (url f0)) = Inr f1" "findImports f1 = []"
    and d: "require R ''pkg/d.sol'' (path_dirname (url f0)) = Inr f2" "findImports f2 = []"
    and fuel: "3 \<le> fuel"
  shows "gatherSources processCwd fuel [''a/b.sol''] workingDir R =
     Some (Inr
       [\<lparr>url = path_resolve processCwd workingDir ''a/b.sol'',
          source = source f0, provider = provider f0\<rparr>,
        \<lparr>url = path_join (path_dirname (path_resolve processCwd workingDir ''a/b.sol'')) ''./c.sol'',
          source = source f1, provider = provider f1\<rparr>,
        \<lparr>url = ''pkg/d.sol'', source = source f2, provider = provider f2\<rparr>])"
proof -
  define root where "root = path_resolve processCwd workingDir ''a/b.sol''"
  have rabs: "isAbsolute root" unfolding root_def using abs by (rule isAbsolute_path_resolve)
  then have nodot: "\<not> starts_with_dot root" by (rule isAbsolute_no_dot)
  from rabs have ne: "root \<noteq> ''./c.sol''" "root \<noteq> ''pkg/d.sol''"
    by (auto simp: isAbsolute_def)
  from fuel obtain n where n: "fuel = Suc (Suc (Suc n))"
    by (metis le_Suc_ex numeral_3_eq_3 add_Suc)
  show ?thesis
    unfolding gatherSources_def gather_init_def n root_def [symmetric]
    using root c d imps nodot ne
    by (simp add: gather_loop_fetch gather_loop_Nil gather_body_def enqueue_import_literal
        root_def [symmetric] starts_with_dot_def Let_def upt_rec)
qed

theorem gatherSources_relative_import_witness:
  \<open>isAbsolute ''/'' \<and> \<not> isAbsolute ''w'' \<and>
   gatherSources ''/'' 3 [''a/b.sol''] ''w'' resolver_flat =
     Some (Inr [file_of ''/w/a/b.sol'' ''import "./c.sol";\<newline>import "pkg/d.sol";'',
                file_of ''/w/a/c.sol'' ''contract C {}'',
                file_of ''pkg/d.sol'' ''contract D {}'']) \<and>
   gatherSources ''/home/u'' 3 [''a/b.sol''] ''/w'' resolver_flat =
     Some (Inr [file_of ''/w/a/b.sol'' ''import "./c.sol";\<newline>import "pkg/d.sol";'',
                file_of ''/w/a/c.sol'' ''contract C {}'',
                file_of ''pkg/d.sol'' ''contract D {}''])\<close>
proof -
  let ?f0 = \<open>file_of ''/w/a/b.sol'' ''import "./c.sol";\<newline>import "pkg/d.sol";''\<close>
  let ?f1 = \<open>file_of ''/w/a/c.sol'' ''contract C {}''\<close>
  let ?f2 = \<open>file_of ''/w/node_modules/pkg/d.sol'' ''contract D {}''\<close>
  have a: "isAbsolute ''/''" "isAbsolute ''/home/u''" and na: "\<not> isAbsolute ''w''" by code_simp+
  have r: "path_resolve ''/'' ''w'' ''a/b.sol'' = ''/w/a/b.sol''"
    "path_resolve ''/home/u'' ''/w'' ''a/b.sol'' = ''/w/a/b.sol''" by code_simp+
  have j: "path_join (path_dirname ''/w/a/b.sol'') ''./c.sol'' = ''/w/a/c.sol''" by code_simp
  have 0: "require resolver_flat (path_resolve ''/'' ''w'' ''a/b.sol'') ''w'' = Inr ?f0"
    "require resolver_flat (path_resolve ''/home/u'' ''/w'' ''a/b.sol'') ''/w'' = Inr ?f0"
    unfolding r by (simp_all add: resolver_flat_def)
  have i0: "findImports ?f0 = [''./c.sol'', ''pkg/d.sol'']" by code_simp
  have 1: "require resolver_flat ''./c.sol'' (path_dirname (url ?f0)) = Inr ?f1" by code_simp
  have i1: "findImports ?f1 = []" by code_simp
  have 2: "require resolver_flat ''pkg/d.sol'' (path_dirname (url ?f0)) = Inr ?f2" by code_simp
  have i2: "findImports ?f2 = []" by code_simp
  from gatherSources_relative_import [OF a(1) 0(1) i0 1 i1 2 i2, of 3]
    gatherSources_relative_import [OF a(2) 0(2) i0 1 i1 2 i2, of 3] a na
  show ?thesis
    by (simp add: r j file_of_def)
qed

text \<open>
  Claim C7 says that the returned list holds at most one entry per locator. The visited
  set is keyed by the import literal as written, not by the locator that is emitted: on
  \<open>resolver_diamond\<close> the file \<^verbatim>\<open>/w/a/y.sol\<close>, imported as \<^verbatim>\<open>./y.sol\<close> and as
  \<^verbatim>\<open>../y.sol\<close>, is emitted twice under the same locator. The roots are queued without
  any visited check: two roots that resolve to the same path give two entries as well.
\<close>

theorem gatherSources_emits_locator_twice:
  \<open>map_option (map_sum id (map url)) (gatherSources ''/'' 4 [''a/b.sol''] ''/w'' resolver_diamond) =
     Some (Inr [''/w/a/b.sol'', ''/w/a/lib/x.sol'', ''/w/a/y.sol'', ''/w/a/y.sol'']) \<and>
   map_option (map_sum id (map url))
       (gatherSources ''/'' 6 [''a/b.sol'', ''./a/b.sol''] ''/w'' resolver_diamond) =
     Some (Inr [''/w/a/b.sol'', ''/w/a/b.sol'', ''/w/a/lib/x.sol'', ''/w/a/y.sol'', ''/w/a/y.sol''])\<close>
  by code_simp

section \<open>Properties of the tree traversal\<close>

subsection \<open>A call of dfs that runs alone\<close>

lemma run_Await: "run (Await r) s = (case r s of (t, s') \<Rightarrow> run t s')"
  by (simp split: prod.splits)

lemma run_await_task:
  "run (await_task t k) s =
     (case run t s of
        (Some (Inr a), s') \<Rightarrow> (case k a s' of (t', s'') \<Rightarrow> run t' s'')
      | (Some (Inl e), s') \<Rightarrow> (Some (Inl e), s')
      | (None, s') \<Rightarrow> (None, s'))"
proof (induction t arbitrary: s)
  case (Done a) show ?case by (simp split: prod.splits)
next
  case (Fail e) show ?case by simp
next
  case Stuck show ?case by simp
next
  case (Await r)
  obtain t s' where rs: "r s = (t, s')" by (cases "r s")
  have "r s \<in> range r" by (rule rangeI)
  moreover from rs have "t \<in> Basic_BNFs.fsts (r s)" by simp
  ultimately have "run (await_task t k) s' =
     (case run t s' of
        (Some (Inr a), s'') \<Rightarrow> (case k a s'' of (t', s3) \<Rightarrow> run t' s3)
      | (Some (Inl e), s'') \<Rightarrow> (Some (Inl e), s'')
      | (None, s'') \<Rightarrow> (None, s''))"
    by (rule Await.IH)
  with rs show ?case by simp
qed

definition run_for ::
  "(string \<Rightarrow> string \<Rightarrow> (tree_state, string) task) \<Rightarrow> string \<Rightarrow> string list \<Rightarrow>
   ImportTreeNode \<Rightarrow> tree_state \<Rightarrow> (error + string) option \<times> tree_state" where
  "run_for d resolvedCwd imps fileNode st =
     (case for_imports d resolvedCwd imps fileNode st of (t, s') \<Rightarrow> run t s')"

lemma run_for_Nil:
  "run_for d resolvedCwd [] fileNode st =
     (Some (Inr (url fileNode)), st\<lparr>dt_result := dt_result st @ [fileNode]\<rparr>)"
  by (simp add: run_for_def)

lemma run_for_Cons:
  "run_for d resolvedCwd (importUri # rest) fileNode st =
     (case run (d resolvedCwd importUri) st of
        (Some (Inr importUrl), st') \<Rightarrow>
          run_for d resolvedCwd rest
            (fileNode\<lparr>node_imports := node_imports fileNode @
               [\<lparr>edge_uri = importUri, edge_url = importUrl\<rparr>]\<rparr>) st'
      | (Some (Inl e), st') \<Rightarrow> (Some (Inl e), st')
      | (None, st') \<Rightarrow> (None, st'))"
  by (simp add: run_for_def run_await_task split: prod.splits option.splits sum.splits)

lemma run_dfs_0: "run (dfs R 0 searchCwd uri') st = (None, st)"
  by simp

declare run_dfs_0 [simp]

lemma run_dfs_Suc:
  "run (dfs R (Suc n) searchCwd uri') st =
     (case resolve R uri' searchCwd of
        Inl e \<Rightarrow> (Some (Inl e), st)
      | Inr url' \<Rightarrow>
          if url' \<in> dt_alreadyImported st then (Some (Inr url'), st)
          else
            (case require R uri' searchCwd of
               Inl e \<Rightarrow> (Some (Inl e), st\<lparr>dt_fetched := dt_fetched st @ [(uri', searchCwd)]\<rparr>)
             | Inr resolvedFile \<Rightarrow>
                 run_for (dfs R n) (path_dirname url') (findImports resolvedFile)
                   \<lparr>url = url resolvedFile, source = source resolvedFile,
                     provider = provider resolvedFile, uri = uri', node_imports = []\<rparr>
                   (st\<lparr>dt_fetched := dt_fetched st @ [(uri', searchCwd)],
                       dt_alreadyImported := insert url' (dt_alreadyImported st)\<rparr>)))"
  by (simp add: run_for_def Let_def split: sum.splits prod.splits)

declare dfs.simps [simp del]

subsection \<open>What a traversal adds to the shared variables\<close>






subsection \<open>Invariants under every schedule\<close>

inductive keeps ::
  "('s \<Rightarrow> bool) \<Rightarrow> ('a \<Rightarrow> bool) \<Rightarrow> (error \<Rightarrow> bool) \<Rightarrow> ('s, 'a) task \<Rightarrow> bool"
  for I :: "'s \<Rightarrow> bool" and V :: "'a \<Rightarrow> bool" and F :: "error \<Rightarrow> bool" where
  keeps_Done: "V a \<Longrightarrow> keeps I V F (Done a)"
| keeps_Fail: "F e \<Longrightarrow> keeps I V F (Fail e)"
| keeps_Stuck: "keeps I V F Stuck"
| keeps_Await: "(\<And>s. I s \<Longrightarrow> I (snd (r s)) \<and> keeps I V F (fst (r s))) \<Longrightarrow> keeps I V F (Await r)"




lemma keeps_await_task:
  assumes "keeps I V F t"
    and "\<And>a s. V a \<Longrightarrow> I s \<Longrightarrow> I (snd (k a s)) \<and> keeps I W F (fst (k a s))"
  shows "keeps I W F (await_task t k)"
  using assms(1)
proof (induction rule: keeps.induct)
  case (keeps_Done a)
  with assms(2) show ?case by (auto intro!: keeps.intros)
next
  case (keeps_Fail e)
  then show ?case by (auto intro!: keeps.intros)
next
  case keeps_Stuck
  show ?case by (auto intro: keeps.intros)
next
  case (keeps_Await r)
  then show ?case by (auto intro!: keeps.intros)
qed

lemma run_keeps:
  "keeps I V F t \<Longrightarrow> I s \<Longrightarrow>
     I (snd (run t s)) \<and> (\<forall>a. fst (run t s) = Some (Inr a) \<longrightarrow> V a) \<and>
     (\<forall>e. fst (run t s) = Some (Inl e) \<longrightarrow> F e)"
proof (induction arbitrary: s rule: keeps.induct)
  case (keeps_Await r)
  obtain t' s' where rs: "r s = (t', s')" by (cases "r s")
  with keeps_Await(1) [of s] keeps_Await(2) show ?case
    by (auto simp: run_Await simp del: run.simps)
qed auto


declare promise_all.simps [simp del]



lemma for_imports_keeps:
  assumes child: "\<And>i. keeps I (V cwd i) F (d cwd i)"
    and edge: "\<And>node i rest v. P node (i # rest) \<Longrightarrow> V cwd i v \<Longrightarrow>
        P (node\<lparr>node_imports := node_imports node @ [\<lparr>edge_uri = i, edge_url = v\<rparr>]\<rparr>) rest"
    and finish: "\<And>node st. P node [] \<Longrightarrow> I st \<Longrightarrow>
        I (st\<lparr>dt_result := dt_result st @ [node]\<rparr>) \<and> W (url node)"
  shows "P node imps \<Longrightarrow> I st \<Longrightarrow>
     I (snd (for_imports d cwd imps node st)) \<and> keeps I W F (fst (for_imports d cwd imps node st))"
proof (induction imps arbitrary: node st)
  case Nil
  with finish [of node st] show ?case by (auto intro: keeps.intros)
next
  case (Cons i rest)
  have "keeps I W F (await_task (d cwd i)
      (\<lambda>importUrl. for_imports d cwd rest
         (node\<lparr>node_imports := node_imports node @ [\<lparr>edge_uri = i, edge_url = importUrl\<rparr>]\<rparr>)))"
  proof (rule keeps_await_task [OF child])
    fix v s assume "V cwd i v" "I s"
    with Cons.prems(1) edge have
      "P (node\<lparr>node_imports := node_imports node @ [\<lparr>edge_uri = i, edge_url = v\<rparr>]\<rparr>) rest"
      by blast
    from Cons.IH [OF this \<open>I s\<close>]
    show "I (snd (for_imports d cwd rest
                (node\<lparr>node_imports := node_imports node @ [\<lparr>edge_uri = i, edge_url = v\<rparr>]\<rparr>) s)) \<and>
          keeps I W F (fst (for_imports d cwd rest
                (node\<lparr>node_imports := node_imports node @ [\<lparr>edge_uri = i, edge_url = v\<rparr>]\<rparr>) s))" .
  qed
  with Cons.prems(2) show ?case by simp
qed

lemma dfs_keeps:
  assumes err: "\<And>u c e. resolve R u c = Inl e \<or> require R u c = Inl e \<Longrightarrow> F e"
    and log: "\<And>st x. I st \<Longrightarrow> I (st\<lparr>dt_fetched := dt_fetched st @ [x]\<rparr>)"
    and seen: "\<And>c u k st. resolve R u c = Inr k \<Longrightarrow> I st \<Longrightarrow> k \<in> dt_alreadyImported st \<Longrightarrow> V c u k"
    and start: "\<And>c u k f st. resolve R u c = Inr k \<Longrightarrow> require R u c = Inr f \<Longrightarrow> I st \<Longrightarrow>
        I (st\<lparr>dt_alreadyImported := insert k (dt_alreadyImported st)\<rparr>) \<and>
        P c u k \<lparr>url = url f, source = source f, provider = provider f, uri = u, node_imports = []\<rparr>
          (findImports f)"
    and edge: "\<And>c u k node i rest v. P c u k node (i # rest) \<Longrightarrow> V (path_dirname k) i v \<Longrightarrow>
        P c u k (node\<lparr>node_imports := node_imports node @ [\<lparr>edge_uri = i, edge_url = v\<rparr>]\<rparr>) rest"
    and finish: "\<And>c u k node st. P c u k node [] \<Longrightarrow> I st \<Longrightarrow>
        I (st\<lparr>dt_result := dt_result st @ [node]\<rparr>) \<and> V c u (url node)"
  shows "keeps I (V searchCwd uri') F (dfs R n searchCwd uri')"
proof (induction n arbitrary: searchCwd uri')
  case 0
  show ?case by (simp add: dfs.simps keeps.intros)
next
  case (Suc n)
  show ?case
  proof (cases "resolve R uri' searchCwd")
    case (Inl e)
    with err [of uri' searchCwd e] show ?thesis by (auto simp: dfs.simps intro!: keeps.intros)
  next
    case (Inr k)
    have "keeps I (V searchCwd uri') F (Await (\<lambda>st.
          if k \<in> dt_alreadyImported st then (Done k, st)
          else
            (case require R uri' searchCwd of
               Inl e \<Rightarrow> Await (\<lambda>st. (Fail e, st))
             | Inr resolvedFile \<Rightarrow> Await (\<lambda>st.
                 let st1 = st\<lparr>dt_alreadyImported := insert k (dt_alreadyImported st)\<rparr>;
                     foundImportURIs = findImports resolvedFile;
                     fileNode = \<lparr>url = url resolvedFile, source = source resolvedFile,
                                 provider = provider resolvedFile, uri = uri', node_imports = []\<rparr>;
                     resolvedCwd = path_dirname k
                 in for_imports (dfs R n) resolvedCwd foundImportURIs fileNode st1),
             st\<lparr>dt_fetched := dt_fetched st @ [(uri', searchCwd)]\<rparr>)))"
    proof (rule keeps_Await, intro conjI)
      fix s assume Is: "I s"
      show "I (snd (if k \<in> dt_alreadyImported s then (Done k, s)
          else
            (case require R uri' searchCwd of
               Inl e \<Rightarrow> Await (\<lambda>st. (Fail e, st))
             | Inr resolvedFile \<Rightarrow> Await (\<lambda>st.
                 let st1 = st\<lparr>dt_alreadyImported := insert k (dt_alreadyImported st)\<rparr>;
                     foundImportURIs = findImports resolvedFile;
                     fileNode = \<lparr>url = url resolvedFile, source = source resolvedFile,
                                 provider = provider resolvedFile, uri = uri', node_imports = []\<rparr>;
                     resolvedCwd = path_dirname k
                 in for_imports (dfs R n) resolvedCwd foundImportURIs fileNode st1),
             s\<lparr>dt_fetched := dt_fetched s @ [(uri', searchCwd)]\<rparr>)))"
        using Is log by simp
      show "keeps I (V searchCwd uri') F (fst (if k \<in> dt_alreadyImported s then (Done k, s)
          else
            (case require R uri' searchCwd of
               Inl e \<Rightarrow> Await (\<lambda>st. (Fail e, st))
             | Inr resolvedFile \<Rightarrow> Await (\<lambda>st.
                 let st1 = st\<lparr>dt_alreadyImported := insert k (dt_alreadyImported st)\<rparr>;
                     foundImportURIs = findImports resolvedFile;
                     fileNode = \<lparr>url = url resolvedFile, source = source resolvedFile,
                                 provider = provider resolvedFile, uri = uri', node_imports = []\<rparr>;
                     resolvedCwd = path_dirname k
                 in for_imports (dfs R n) resolvedCwd foundImportURIs fileNode st1),
             s\<lparr>dt_fetched := dt_fetched s @ [(uri', searchCwd)]\<rparr>)))"
      proof (cases "k \<in> dt_alreadyImported s")
        case True
        with seen [OF Inr Is] show ?thesis by (simp add: keeps.intros)
      next
        case False
        show ?thesis
        proof (cases "require R uri' searchCwd")
          case (Inl e)
          with False err [of uri' searchCwd e] show ?thesis by (auto intro!: keeps.intros)
        next
          case rf: (Inr f)
          have "keeps I (V searchCwd uri') F (Await (\<lambda>st.
              for_imports (dfs R n) (path_dirname k) (findImports f)
                \<lparr>url = url f, source = source f, provider = provider f, uri = uri',
                  node_imports = []\<rparr>
                (st\<lparr>dt_alreadyImported := insert k (dt_alreadyImported st)\<rparr>)))"
          proof (rule keeps_Await)
            fix s' assume "I s'"
            from start [OF Inr rf this] have
              1: "I (s'\<lparr>dt_alreadyImported := insert k (dt_alreadyImported s')\<rparr>)" and
              2: "P searchCwd uri' k
                    \<lparr>url = url f, source = source f, provider = provider f, uri = uri',
                      node_imports = []\<rparr> (findImports f)" by simp_all
            show "I (snd (for_imports (dfs R n) (path_dirname k) (findImports f)
                \<lparr>url = url f, source = source f, provider = provider f, uri = uri',
                  node_imports = []\<rparr>
                (s'\<lparr>dt_alreadyImported := insert k (dt_alreadyImported s')\<rparr>))) \<and>
              keeps I (V searchCwd uri') F (fst (for_imports (dfs R n) (path_dirname k) (findImports f)
                \<lparr>url = url f, source = source f, provider = provider f, uri = uri',
                  node_imports = []\<rparr>
                (s'\<lparr>dt_alreadyImported := insert k (dt_alreadyImported s')\<rparr>)))"
              by (rule for_imports_keeps [where P = "P searchCwd uri' k" and V = V,
                    OF Suc.IH edge finish 2 1])
          qed
          with False rf show ?thesis by (simp add: Let_def)
        qed
      qed
    qed
    with Inr show ?thesis by (simp add: dfs.simps)
  qed
qed

subsection \<open>The visited set only grows\<close>

lemma dfs_keeps_visited:
  "keeps (\<lambda>s. V0 \<subseteq> dt_alreadyImported s) (\<lambda>v. True) (\<lambda>e. True) (dfs R n searchCwd uri')"
  by (rule dfs_keeps [where P = "\<lambda>c u k node rest. True" and V = "\<lambda>c u v. True"]) auto

lemma run_dfs_visited_mono:
  "dt_alreadyImported st \<subseteq> dt_alreadyImported (snd (run (dfs R n searchCwd uri') st))"
  using run_keeps [OF dfs_keeps_visited [of "dt_alreadyImported st"], of st] by simp

subsection \<open>Termination of a traversal that runs alone\<close>

lemma run_for_terminates:
  assumes fin: "finite U"
    and child: "\<And>i st. card (U - dt_alreadyImported st) < n \<Longrightarrow>
        fst (run (dfs R n cwd i) st) \<noteq> None"
  shows "card (U - dt_alreadyImported st) < n \<Longrightarrow>
     fst (run_for (dfs R n) cwd imps node st) \<noteq> None"
proof (induction imps arbitrary: node st)
  case Nil
  show ?case by (simp add: run_for_Nil)
next
  case (Cons i rest)
  obtain r1 st1 where r1: "run (dfs R n cwd i) st = (r1, st1)" by (cases "run (dfs R n cwd i) st")
  from child [OF Cons.prems, of i] r1 have "r1 \<noteq> None" by simp
  then obtain x where x: "r1 = Some x" by auto
  show ?case
  proof (cases x)
    case (Inl e)
    with r1 x show ?thesis by (simp add: run_for_Cons)
  next
    case (Inr v)
    from run_dfs_visited_mono [of st R n cwd i] r1
    have "dt_alreadyImported st \<subseteq> dt_alreadyImported st1" by simp
    then have "U - dt_alreadyImported st1 \<subseteq> U - dt_alreadyImported st" by auto
    with fin have "card (U - dt_alreadyImported st1) \<le> card (U - dt_alreadyImported st)"
      by (intro card_mono) auto
    with Cons.prems have "card (U - dt_alreadyImported st1) < n" by simp
    from Cons.IH [OF this] r1 x Inr show ?thesis by (simp add: run_for_Cons)
  qed
qed

lemma run_dfs_terminates:
  assumes fin: "finite U"
    and range: "\<And>u c k. resolve R u c = Inr k \<Longrightarrow> k \<in> U"
  shows "card (U - dt_alreadyImported st) < n \<Longrightarrow>
     fst (run (dfs R n searchCwd uri') st) \<noteq> None"
proof (induction n arbitrary: searchCwd uri' st)
  case 0
  then show ?case by simp
next
  case (Suc n)
  show ?case
  proof (cases "resolve R uri' searchCwd")
    case (Inl e)
    then show ?thesis by (simp add: run_dfs_Suc)
  next
    case (Inr k)
    show ?thesis
    proof (cases "k \<in> dt_alreadyImported st")
      case True
      with Inr show ?thesis by (simp add: run_dfs_Suc)
    next
      case False
      show ?thesis
      proof (cases "require R uri' searchCwd")
        case (Inl e)
        with Inr False show ?thesis by (simp add: run_dfs_Suc)
      next
        case rf: (Inr f)
        from range [OF Inr] False have "k \<in> U - dt_alreadyImported st" by simp
        moreover have "U - insert k (dt_alreadyImported st) = (U - dt_alreadyImported st) - {k}"
          by auto
        moreover from fin have "finite (U - dt_alreadyImported st)" by simp
        ultimately have "card (U - insert k (dt_alreadyImported st)) < card (U - dt_alreadyImported st)"
          by (simp only: card_Diff1_less)
        with Suc.prems have "card (U - insert k (dt_alreadyImported st)) < n" by simp
        then have "fst (run_for (dfs R n) (path_dirname k) (findImports f)
             \<lparr>url = url f, source = source f, provider = provider f, uri = uri', node_imports = []\<rparr>
             (st\<lparr>dt_fetched := dt_fetched st @ [(uri', searchCwd)],
                 dt_alreadyImported := insert k (dt_alreadyImported st)\<rparr>)) \<noteq> None"
          by (intro run_for_terminates [OF fin Suc.IH]) simp_all
        with Inr False rf show ?thesis by (simp add: run_dfs_Suc)
      qed
    qed
  qed
qed

subsection \<open>One root: the schedule does not matter\<close>

lemma promise_all_Stuck: "promise_all (replicate m 0) [Stuck] s = (None, s)"
  by (induction m) (simp_all add: promise_all.simps step_task_def)

lemma promise_all_single:
  "\<exists>k. \<forall>m\<ge>k. promise_all (replicate m 0) [t] s =
     (map_option (map_sum id (\<lambda>v. [v])) (fst (run t s)), snd (run t s))"
proof (induction t arbitrary: s)
  case (Done a)
  show ?case by (simp add: promise_all.simps)
next
  case (Fail e)
  have "\<forall>m\<ge>1. promise_all (replicate m 0) [Fail e] s = (Some (Inl e), s)"
  proof (intro allI impI)
    fix m :: nat assume "1 \<le> m"
    then obtain m' where "m = Suc m'" by (cases m) auto
    then show "promise_all (replicate m 0) [Fail e] s = (Some (Inl e), s)"
      by (simp add: promise_all.simps step_task_def)
  qed
  then show ?case by auto
next
  case Stuck
  show ?case by (simp add: promise_all_Stuck)
next
  case (Await r)
  obtain t' s' where rs: "r s = (t', s')" by (cases "r s")
  have "r s \<in> range r" by (rule rangeI)
  moreover from rs have "t' \<in> Basic_BNFs.fsts (r s)" by simp
  ultimately obtain k where k: "\<forall>m\<ge>k. promise_all (replicate m 0) [t'] s' =
     (map_option (map_sum id (\<lambda>v. [v])) (fst (run t' s')), snd (run t' s'))"
    using Await.IH by blast
  have "\<forall>m\<ge>Suc k. promise_all (replicate m 0) [Await r] s =
     (map_option (map_sum id (\<lambda>v. [v])) (fst (run (Await r) s)), snd (run (Await r) s))"
  proof (intro allI impI)
    fix m assume "Suc k \<le> m"
    then obtain m' where m: "m = Suc m'" "k \<le> m'" by (cases m) auto
    show "promise_all (replicate m 0) [Await r] s =
     (map_option (map_sum id (\<lambda>v. [v])) (fst (run (Await r) s)), snd (run (Await r) s))"
    proof (cases t')
      case (Fail e)
      with rs m show ?thesis
        by (simp add: promise_all.simps [of "0 # _"] step_task_def run_Await del: run.simps(4))
    next
      case (Done a)
      with rs m k show ?thesis
        by (simp add: promise_all.simps [of "0 # _"] step_task_def run_Await del: run.simps(4))
    next
      case Stuck
      with rs m k show ?thesis
        by (simp add: promise_all.simps [of "0 # _"] step_task_def run_Await del: run.simps(4))
    next
      case (Await r')
      with rs m k show ?thesis
        by (simp add: promise_all.simps [of "0 # _"] step_task_def run_Await del: run.simps(4))
    qed
  qed
  then show ?case by blast
qed


subsection \<open>Several roots: the fetch-once race\<close>

text \<open>
  Claim C4 says that a file imported by several roots is fetched exactly once and gets
  at most one node. dfs tests \<^verbatim>\<open>alreadyImported.has(url)\<close> before it awaits
  \<^verbatim>\<open>resolver.require\<close> and calls \<^verbatim>\<open>alreadyImported.add(url)\<close> only after that await,
  so a second call that is resumed in between finds the url unvisited. With the roots
  \<^verbatim>\<open>A.sol\<close> and \<^verbatim>\<open>B.sol\<close> of \<open>resolver_shared\<close> resumed in turn (as they are when all
  promises of the resolver take equally long), \<^verbatim>\<open>F.sol\<close> is requested twice and two nodes
  are pushed for it; when the first root runs to its end before the second is resumed,
  it is requested once.
\<close>

theorem gatherDepenencyTree_fetches_twice:
  \<open>(case gatherDepenencyTree [0, 1, 0, 1, 0, 1, 0, 1, 0, 1] 2 [''A.sol'', ''B.sol''] ''/w'' resolver_shared of
      (r, st) \<Rightarrow> (map_option (map_sum id (map url)) r, dt_fetched st)) =
     (Some (Inr [''/w/F.sol'', ''/w/F.sol'', ''/w/A.sol'', ''/w/B.sol'']),
      [(''A.sol'', ''/w''), (''B.sol'', ''/w''), (''F.sol'', ''/w''), (''F.sol'', ''/w'')]) \<and>
   (case gatherDepenencyTree [0, 0, 0, 0, 0, 1, 1, 1, 1, 1] 2 [''A.sol'', ''B.sol''] ''/w'' resolver_shared of
      (r, st) \<Rightarrow> (map_option (map_sum id (map url)) r, dt_fetched st)) =
     (Some (Inr [''/w/F.sol'', ''/w/A.sol'', ''/w/B.sol'']),
      [(''A.sol'', ''/w''), (''F.sol'', ''/w''), (''B.sol'', ''/w'')])\<close>
  by code_simp

subsection \<open>One root: cycles and termination\<close>

lemma gatherDepenencyTree_of_promise_all:
  assumes run: "run (dfs R n workingDir root) tree_init = (r, st)"
   and "promise_all sched [dfs R n workingDir root] tree_init =
       (map_option (map_sum id (\<lambda>v. [v])) r, st)"
  shows "gatherDepenencyTree sched n [root] workingDir R =
     (case r of
        Some (Inr v) \<Rightarrow> (Some (Inr (dt_result st)), st)
      | Some (Inl e) \<Rightarrow> (Some (Inl e), st)
      | None \<Rightarrow> (None, st))"
  using assms(2) unfolding gatherDepenencyTree_def
  apply (cases r)
   apply simp
  subgoal for x
    apply (cases x)
     apply simp
    apply simp
    done
  done

lemma gatherDepenencyTree_single:
  assumes run: "run (dfs R n workingDir root) tree_init = (r, st)"
  shows "\<exists>k. \<forall>m\<ge>k. gatherDepenencyTree (replicate m 0) n [root] workingDir R =
     (case r of
        Some (Inr v) \<Rightarrow> (Some (Inr (dt_result st)), st)
      | Some (Inl e) \<Rightarrow> (Some (Inl e), st)
      | None \<Rightarrow> (None, st))"
proof -
  from promise_all_single [of "dfs R n workingDir root" tree_init]
  obtain k where k: "\<forall>m\<ge>k. promise_all (replicate m 0) [dfs R n workingDir root] tree_init =
     (map_option (map_sum id (\<lambda>v. [v])) (fst (run (dfs R n workingDir root) tree_init)),
      snd (run (dfs R n workingDir root) tree_init))" ..
  have "gatherDepenencyTree (replicate m 0) n [root] workingDir R =
     (case r of
        Some (Inr v) \<Rightarrow> (Some (Inr (dt_result st)), st)
      | Some (Inl e) \<Rightarrow> (Some (Inl e), st)
      | None \<Rightarrow> (None, st))" if "k \<le> m" for m
  proof (rule gatherDepenencyTree_of_promise_all [OF run])
    from k that have "promise_all (replicate m 0) [dfs R n workingDir root] tree_init =
     (map_option (map_sum id (\<lambda>v. [v])) (fst (run (dfs R n workingDir root) tree_init)),
      snd (run (dfs R n workingDir root) tree_init))" by blast
    then show "promise_all (replicate m 0) [dfs R n workingDir root] tree_init =
       (map_option (map_sum id (\<lambda>v. [v])) r, st)"
      unfolding run by simp
  qed
  then show ?thesis by blast
qed

lemma dfs_cycle:
  assumes rA: "resolve R a workingDir = Inr ua"
    and fA: "require R a workingDir = Inr fa"
    and iA: "findImports fa = [b]"
    and rB: "resolve R b (path_dirname ua) = Inr ub"
    and ne: "ub \<noteq> ua"
    and fB: "require R b (path_dirname ua) = Inr fb"
    and iB: "findImports fb = [a']"
    and rA': "resolve R a' (path_dirname ub) = Inr ua"
  shows "run (dfs R (Suc (Suc (Suc n))) workingDir a) tree_init =
     (Some (Inr (url fa)),
      \<lparr>dt_alreadyImported = {ub, ua},
       dt_result =
         [\<lparr>url = url fb, source = source fb, provider = provider fb, uri = b,
            node_imports = [\<lparr>edge_uri = a', edge_url = ua\<rparr>]\<rparr>,
          \<lparr>url = url fa, source = source fa, provider = provider fa, uri = a,
            node_imports = [\<lparr>edge_uri = b, edge_url = url fb\<rparr>]\<rparr>],
       dt_fetched = [(a, workingDir), (b, path_dirname ua)]\<rparr>)"
  using assms by (simp add: run_dfs_Suc run_for_Cons run_for_Nil tree_init_def)


text \<open>
  What holds for a traversal started from one root, where no other call of dfs runs in
  between. First part: if \<open>a\<close> imports \<open>b\<close> and \<open>b\<close> imports \<open>a\<close> (under any literals
  that resolve to the two distinct urls \<open>ua\<close> and \<open>ub\<close>), then dfs from \<open>a\<close> with a
  budget of at least 3 nested calls returns, has made exactly the two requests for \<open>a\<close>
  and \<open>b\<close>, and leaves exactly one node for \<open>b\<close> and one for \<open>a\<close>; the edge of \<open>b\<close>
  back to \<open>a\<close> is answered from the visited set. gatherDepenencyTree returns these two
  nodes. Second part: if all urls the resolver can return lie in a finite set \<open>U\<close>, dfs
  from any root settles (with a value or a rejection) within a budget of \<open>card U + 1\<close>
  nested calls, and so does gatherDepenencyTree.
\<close>

lemma one_root_cycle_and_termination:
  "(resolve R a workingDir = Inr ua \<and> require R a workingDir = Inr fa \<and> findImports fa = [b] \<and>
    resolve R b (path_dirname ua) = Inr ub \<and> ub \<noteq> ua \<and>
    require R b (path_dirname ua) = Inr fb \<and> findImports fb = [a'] \<and>
    resolve R a' (path_dirname ub) = Inr ua \<and> 3 \<le> n \<longrightarrow>
      run (dfs R n workingDir a) tree_init =
        (Some (Inr (url fa)),
         \<lparr>dt_alreadyImported = {ub, ua},
          dt_result =
            [\<lparr>url = url fb, source = source fb, provider = provider fb, uri = b,
               node_imports = [\<lparr>edge_uri = a', edge_url = ua\<rparr>]\<rparr>,
             \<lparr>url = url fa, source = source fa, provider = provider fa, uri = a,
               node_imports = [\<lparr>edge_uri = b, edge_url = url fb\<rparr>]\<rparr>],
          dt_fetched = [(a, workingDir), (b, path_dirname ua)]\<rparr>) \<and>
      (\<exists>k. \<forall>m\<ge>k. fst (gatherDepenencyTree (replicate m 0) n [a] workingDir R) =
         Some (Inr
            [\<lparr>url = url fb, source = source fb, provider = provider fb, uri = b,
               node_imports = [\<lparr>edge_uri = a', edge_url = ua\<rparr>]\<rparr>,
             \<lparr>url = url fa, source = source fa, provider = provider fa, uri = a,
               node_imports = [\<lparr>edge_uri = b, edge_url = url fb\<rparr>]\<rparr>]))) \<and>
   (finite U \<and> (\<forall>u c k. resolve R u c = Inr k \<longrightarrow> k \<in> U) \<and> card U < n' \<longrightarrow>
      fst (run (dfs R n' searchCwd root) tree_init) \<noteq> None \<and>
      (\<exists>k. \<forall>m\<ge>k. fst (gatherDepenencyTree (replicate m 0) n' [root] searchCwd R) \<noteq> None))"
proof (intro conjI impI)
  assume h: "resolve R a workingDir = Inr ua \<and> require R a workingDir = Inr fa \<and> findImports fa = [b] \<and>
    resolve R b (path_dirname ua) = Inr ub \<and> ub \<noteq> ua \<and>
    require R b (path_dirname ua) = Inr fb \<and> findImports fb = [a'] \<and>
    resolve R a' (path_dirname ub) = Inr ua \<and> 3 \<le> n"
  then obtain n0 where n: "n = Suc (Suc (Suc n0))"
    by (metis le_Suc_ex numeral_3_eq_3 add_Suc)
  from h have run: "run (dfs R n workingDir a) tree_init =
        (Some (Inr (url fa)),
         \<lparr>dt_alreadyImported = {ub, ua},
          dt_result =
            [\<lparr>url = url fb, source = source fb, provider = provider fb, uri = b,
               node_imports = [\<lparr>edge_uri = a', edge_url = ua\<rparr>]\<rparr>,
             \<lparr>url = url fa, source = source fa, provider = provider fa, uri = a,
               node_imports = [\<lparr>edge_uri = b, edge_url = url fb\<rparr>]\<rparr>],
          dt_fetched = [(a, workingDir), (b, path_dirname ua)]\<rparr>)"
    unfolding n by (intro dfs_cycle) simp_all
  then show "run (dfs R n workingDir a) tree_init =
        (Some (Inr (url fa)),
         \<lparr>dt_alreadyImported = {ub, ua},
          dt_result =
            [\<lparr>url = url fb, source = source fb, provider = provider fb, uri = b,
               node_imports = [\<lparr>edge_uri = a', edge_url = ua\<rparr>]\<rparr>,
             \<lparr>url = url fa, source = source fa, provider = provider fa, uri = a,
               node_imports = [\<lparr>edge_uri = b, edge_url = url fb\<rparr>]\<rparr>],
          dt_fetched = [(a, workingDir), (b, path_dirname ua)]\<rparr>)" .
  from gatherDepenencyTree_single [OF run] obtain k where
    "\<forall>m\<ge>k. gatherDepenencyTree (replicate m 0) n [a] workingDir R =
       (Some (Inr
            [\<lparr>url = url fb, source = source fb, provider = provider fb, uri = b,
               node_imports = [\<lparr>edge_uri = a', edge_url = ua\<rparr>]\<rparr>,
             \<lparr>url = url fa, source = source fa, provider = provider fa, uri = a,
               node_imports = [\<lparr>edge_uri = b, edge_url = url fb\<rparr>]\<rparr>]),
         \<lparr>dt_alreadyImported = {ub, ua},
          dt_result =
            [\<lparr>url = url fb, source = source fb, provider = provider fb, uri = b,
               node_imports = [\<lparr>edge_uri = a', edge_url = ua\<rparr>]\<rparr>,
             \<lparr>url = url fa, source = source fa, provider = provider fa, uri = a,
               node_imports = [\<lparr>edge_uri = b, edge_url = url fb\<rparr>]\<rparr>],
          dt_fetched = [(a, workingDir), (b, path_dirname ua)]\<rparr>)"
    by auto
  then have "\<forall>m\<ge>k. fst (gatherDepenencyTree (replicate m 0) n [a] workingDir R) =
         Some (Inr
            [\<lparr>url = url fb, source = source fb, provider = provider fb, uri = b,
               node_imports = [\<lparr>edge_uri = a', edge_url = ua\<rparr>]\<rparr>,
             \<lparr>url = url fa, source = source fa, provider = provider fa, uri = a,
               node_imports = [\<lparr>edge_uri = b, edge_url = url fb\<rparr>]\<rparr>])"
    by simp
  then show "\<exists>k. \<forall>m\<ge>k. fst (gatherDepenencyTree (replicate m 0) n [a] workingDir R) =
         Some (Inr
            [\<lparr>url = url fb, source = source fb, provider = provider fb, uri = b,
               node_imports = [\<lparr>edge_uri = a', edge_url = ua\<rparr>]\<rparr>,
             \<lparr>url = url fa, source = source fa, provider = provider fa, uri = a,
               node_imports = [\<lparr>edge_uri = b, edge_url = url fb\<rparr>]\<rparr>])"
    by blast
next
  assume h: "finite U \<and> (\<forall>u c k. resolve R u c = Inr k \<longrightarrow> k \<in> U) \<and> card U < n'"
  then have "card (U - dt_alreadyImported tree_init) < n'" by (simp add: tree_init_def)
  with h show t: "fst (run (dfs R n' searchCwd root) tree_init) \<noteq> None"
    by (intro run_dfs_terminates [where U = U]) auto
  obtain r st where run: "run (dfs R n' searchCwd root) tree_init = (r, st)"
    by (cases "run (dfs R n' searchCwd root) tree_init")
  with t obtain x where x: "r = Some x" by auto
  from gatherDepenencyTree_single [OF run] obtain k where
    k: "\<forall>m\<ge>k. gatherDepenencyTree (replicate m 0) n' [root] searchCwd R =
       (case r of
          Some (Inr v) \<Rightarrow> (Some (Inr (dt_result st)), st)
        | Some (Inl e) \<Rightarrow> (Some (Inl e), st)
        | None \<Rightarrow> (None, st))" ..
  have "\<forall>m\<ge>k. fst (gatherDepenencyTree (replicate m 0) n' [root] searchCwd R) \<noteq> None"
    using k x by (cases x) simp_all
  then show "\<exists>k. \<forall>m\<ge>k. fst (gatherDepenencyTree (replicate m 0) n' [root] searchCwd R) \<noteq> None"
    by blast
qed


lemma one_root_cycle_and_termination_instance:
  \<open>run (dfs resolver_cycle 3 ''/w'' ''A.sol'') tree_init =
     (Some (Inr ''/w/A.sol''),
      \<lparr>dt_alreadyImported = {''/w/B.sol'', ''/w/A.sol''},
       dt_result =
         [\<lparr>url = ''/w/B.sol'', source = ''import "A.sol";'', provider = ''fs'', uri = ''B.sol'',
            node_imports = [\<lparr>edge_uri = ''A.sol'', edge_url = ''/w/A.sol''\<rparr>]\<rparr>,
          \<lparr>url = ''/w/A.sol'', source = ''import "B.sol";'', provider = ''fs'', uri = ''A.sol'',
            node_imports = [\<lparr>edge_uri = ''B.sol'', edge_url = ''/w/B.sol''\<rparr>]\<rparr>],
       dt_fetched = [(''A.sol'', ''/w''), (''B.sol'', ''/w'')]\<rparr>) \<and>
   (\<exists>k. \<forall>m\<ge>k. fst (gatherDepenencyTree (replicate m 0) 3 [''A.sol''] ''/w'' resolver_cycle) =
      Some (Inr
         [\<lparr>url = ''/w/B.sol'', source = ''import "A.sol";'', provider = ''fs'', uri = ''B.sol'',
            node_imports = [\<lparr>edge_uri = ''A.sol'', edge_url = ''/w/A.sol''\<rparr>]\<rparr>,
          \<lparr>url = ''/w/A.sol'', source = ''import "B.sol";'', provider = ''fs'', uri = ''A.sol'',
            node_imports = [\<lparr>edge_uri = ''B.sol'', edge_url = ''/w/B.sol''\<rparr>]\<rparr>])) \<and>
   finite {''/w/A.sol'', ''/w/B.sol''} \<and> card {''/w/A.sol'', ''/w/B.sol''} < (3::nat) \<and>
   fst (run (dfs resolver_cycle 3 ''/w'' ''B.sol'') tree_init) \<noteq> None \<and>
   (\<exists>k. \<forall>m\<ge>k. fst (gatherDepenencyTree (replicate m 0) 3 [''B.sol''] ''/w'' resolver_cycle) \<noteq> None)\<close>
proof -
  let ?fa = \<open>file_of ''/w/A.sol'' ''import "B.sol";''\<close>
  let ?fb = \<open>file_of ''/w/B.sol'' ''import "A.sol";''\<close>
  have d: "path_dirname ''/w/A.sol'' = ''/w''" "path_dirname ''/w/B.sol'' = ''/w''" by code_simp+
  have 1: "resolve resolver_cycle ''A.sol'' ''/w'' = Inr ''/w/A.sol''" by code_simp
  have 2: "require resolver_cycle ''A.sol'' ''/w'' = Inr ?fa" by code_simp
  have 3: "findImports ?fa = [''B.sol'']" by code_simp
  have 4: "resolve resolver_cycle ''B.sol'' (path_dirname ''/w/A.sol'') = Inr ''/w/B.sol''" by code_simp
  have 5: "''/w/B.sol'' \<noteq> ''/w/A.sol''" by simp
  have 6: "require resolver_cycle ''B.sol'' (path_dirname ''/w/A.sol'') = Inr ?fb" by code_simp
  have 7: "findImports ?fb = [''A.sol'']" by code_simp
  have 8: "resolve resolver_cycle ''A.sol'' (path_dirname ''/w/B.sol'') = Inr ''/w/A.sol''" by code_simp
  have 9: "\<forall>u c k. resolve resolver_cycle u c = Inr k \<longrightarrow> k \<in> {''/w/A.sol'', ''/w/B.sol''}"
    by (auto simp: resolver_cycle_def split: if_splits)
  have 10: "finite {''/w/A.sol'', ''/w/B.sol''}" "card {''/w/A.sol'', ''/w/B.sol''} < (3::nat)"
    by simp_all
  from one_root_cycle_and_termination [of resolver_cycle "''A.sol''" "''/w''" "''/w/A.sol''" ?fa
      "''B.sol''" "''/w/B.sol''" ?fb "''A.sol''" 3 "{''/w/A.sol'', ''/w/B.sol''}" 3 "''/w''" "''B.sol''"]
    1 2 3 4 5 6 7 8 9 10
  show ?thesis by (simp add: d file_of_def)
qed


text \<open>
  Claim C5 says that for two files that import each other gatherDepenencyTree produces
  exactly one node for each and expands neither twice. With both files as roots this
  fails by the race of claim C4: the call for the root \<^verbatim>\<open>B.sol\<close> has passed the
  \<^verbatim>\<open>alreadyImported.has\<close> test and awaits \<^verbatim>\<open>resolver.require\<close>; meanwhile the call for
  the root \<^verbatim>\<open>A.sol\<close> reaches its import \<^verbatim>\<open>B.sol\<close>, finds the url unvisited and requests
  it again. \<^verbatim>\<open>B.sol\<close> is requested twice and two nodes are pushed for it (first
  conjunct: the urls of the nodes returned, and the requests made). With the one root
  \<^verbatim>\<open>A.sol\<close> each file is requested once and has one node (second conjunct).
\<close>

theorem gatherDepenencyTree_cycle_expands_twice:
  \<open>(case gatherDepenencyTree [0, 1, 0, 0, 0, 0, 0, 0, 0, 1, 1, 1, 1, 1, 1] 3
           [''A.sol'', ''B.sol''] ''/w'' resolver_cycle of
      (r, st) \<Rightarrow> (map_option (map_sum id (map url)) r, dt_fetched st)) =
     (Some (Inr [''/w/B.sol'', ''/w/A.sol'', ''/w/B.sol'']),
      [(''A.sol'', ''/w''), (''B.sol'', ''/w''), (''B.sol'', ''/w'')]) \<and>
   (case gatherDepenencyTree [0, 0, 0, 0, 0, 0, 0, 0] 3 [''A.sol''] ''/w'' resolver_cycle of
      (r, st) \<Rightarrow> (map_option (map_sum id (map url)) r, dt_fetched st)) =
     (Some (Inr [''/w/B.sol'', ''/w/A.sol'']),
      [(''A.sol'', ''/w''), (''B.sol'', ''/w'')])\<close>
  by code_simp

subsection \<open>gatherSources: a rejected fetch ends the loop\<close>


lemma fetched_enqueue_import [simp]:
  "fetched (enqueue_import relativePath fileParentDir foundImports st idx) = fetched st"
  by (simp add: enqueue_import_def Let_def)

lemma fetched_foldl_enqueue [simp]:
  "fetched (foldl (enqueue_import relativePath fileParentDir foundImports) st idxs) = fetched st"
  by (induction idxs arbitrary: st) simp_all

lemma fetched_gather_body [simp]: "fetched (gather_body fileData resolvedFile st) = fetched st"
  by (simp add: gather_body_def Let_def)



subsection \<open>Several roots: what a rejected request does to a call of dfs\<close>

text \<open>
  \<open>fails_in k e t\<close>: whatever the shared variables hold and whatever else runs in between,
  the call \<open>t\<close> rejects with \<open>e\<close> after exactly \<open>k\<close> more turns.
\<close>

inductive fails_in :: "nat \<Rightarrow> error \<Rightarrow> ('s, 'a) task \<Rightarrow> bool" where
  fails_in_Fail: "fails_in 0 e (Fail e)"
| fails_in_Await: "(\<And>s. fails_in k e (fst (r s))) \<Longrightarrow> fails_in (Suc k) e (Await r)"

text \<open>
  Among the requests \<open>new\<close> there is one that the resolver rejects (\<open>rejected_fetch\<close>), or
  rejects with the error \<open>x\<close> (\<open>rejected_with\<close>).
\<close>

definition rejected_fetch :: "resolver \<Rightarrow> (string \<times> string) list \<Rightarrow> bool" where
  "rejected_fetch R new = (\<exists>(u, c) \<in> set new. \<exists>e. require R u c = Inl e)"

definition rejected_with :: "resolver \<Rightarrow> error \<Rightarrow> (string \<times> string) list \<Rightarrow> bool" where
  "rejected_with R x new = (\<exists>u c. (u, c) \<in> set new \<and> require R u c = Inl x)"

text \<open>
  \<open>reports R B t\<close>: each turn of \<open>t\<close> only appends to the record of requests, and a turn
  that makes a request which the resolver rejects leaves the call in a state from which it
  rejects within \<open>B\<close> turns.
\<close>

inductive reports :: "resolver \<Rightarrow> nat \<Rightarrow> (tree_state, 'a) task \<Rightarrow> bool"
  for R :: resolver and B :: nat where
  reports_Done: "reports R B (Done a)"
| reports_Fail: "reports R B (Fail e)"
| reports_Stuck: "reports R B Stuck"
| reports_Await:
    "(\<And>s. reports R B (fst (r s)) \<and>
          (\<exists>new. dt_fetched (snd (r s)) = dt_fetched s @ new \<and>
                 (rejected_fetch R new \<longrightarrow> (\<exists>k\<le>B. \<exists>e. fails_in k e (fst (r s)))))) \<Longrightarrow>
     reports R B (Await r)"

text \<open>
  \<open>quiet R x t\<close>: as long as no request has been made that the resolver rejects with \<open>x\<close>,
  the call \<open>t\<close> does not reject with \<open>x\<close>.
\<close>

inductive quiet :: "resolver \<Rightarrow> error \<Rightarrow> (tree_state, 'a) task \<Rightarrow> bool"
  for R :: resolver and x :: error where
  quiet_Done: "quiet R x (Done a)"
| quiet_Fail: "e \<noteq> x \<Longrightarrow> quiet R x (Fail e)"
| quiet_Stuck: "quiet R x Stuck"
| quiet_Await:
    "(\<And>s. \<not> rejected_with R x (dt_fetched (snd (r s))) \<Longrightarrow> quiet R x (fst (r s))) \<Longrightarrow>
     quiet R x (Await r)"

lemma fails_in_not_Done [simp]: "\<not> fails_in k e (Done a)"
  by (auto elim: fails_in.cases)

lemma fails_in_not_Stuck [simp]: "\<not> fails_in k e Stuck"
  by (auto elim: fails_in.cases)

lemma fails_in_FailD: "fails_in k e (Fail e') \<Longrightarrow> k = 0 \<and> e' = e"
  by (auto elim: fails_in.cases)

lemma fails_in_AwaitD: "fails_in k e (Await r) \<Longrightarrow> \<exists>k'. k = Suc k' \<and> fails_in k' e (fst (r s))"
  by (erule fails_in.cases) auto




lemma rejected_fetch_Nil [simp]: "\<not> rejected_fetch R []"
  by (simp add: rejected_fetch_def)

lemma rejected_fetch_append [simp]:
  "rejected_fetch R (xs @ ys) \<longleftrightarrow> rejected_fetch R xs \<or> rejected_fetch R ys"
  by (auto simp: rejected_fetch_def)

lemma rejected_with_append [simp]:
  "rejected_with R x (xs @ ys) \<longleftrightarrow> rejected_with R x xs \<or> rejected_with R x ys"
  by (auto simp: rejected_with_def)


lemma reports_mono: "reports R B t \<Longrightarrow> B \<le> B' \<Longrightarrow> reports R B' t"
proof (induction rule: reports.induct)
  case (reports_Await r)
  show ?case
  proof (rule reports.reports_Await, intro conjI)
    fix s
    from reports_Await(1) [of s] reports_Await(2) show "reports R B' (fst (r s))" by simp
    from reports_Await(1) [of s] reports_Await(2)
    show "\<exists>new. dt_fetched (snd (r s)) = dt_fetched s @ new \<and>
        (rejected_fetch R new \<longrightarrow> (\<exists>k\<le>B'. \<exists>e. fails_in k e (fst (r s))))"
      by (meson le_trans)
  qed
qed (auto intro: reports.intros)









subsection \<open>Several roots: the calls under every schedule\<close>













subsection \<open>Several roots: the whole call\<close>









section \<open>The locator recorded on an edge\<close>















end
